theory Spec2Isabelle
  imports Complex_Main "HOL-Library.Sublist" "HOL-Library.AList"
begin

section \<open>Fault classifier (orchestrator/recovery.py)\<close>

text \<open>
  Failure texts are modelled as ASCII strings: \<open>str.lower\<close> maps the letters
  \<open>A\<close>..\<open>Z\<close> to \<open>a\<close>..\<open>z\<close> and leaves every other character as it is.
\<close>

datatype FaultType = RETRIABLE | NON_RETRIABLE

definition RETRIABLE_SIGNATURES :: "string list" where
  "RETRIABLE_SIGNATURES =
     [''nccl'',
      ''connection reset'',
      ''timeout'',
      ''cuda error: out of memory'',
      ''runtimeerror: cuda error'']"

definition lower_char :: "char \<Rightarrow> char" where
  "lower_char c =
     (if 65 \<le> (of_char c :: nat) \<and> (of_char c :: nat) \<le> 90
      then char_of ((of_char c :: nat) + 32) else c)"

definition lower :: "string \<Rightarrow> string" where
  "lower s = map lower_char s"

text \<open>
  The loop \<open>for sig in RETRIABLE_SIGNATURES: if sig in text: return RETRIABLE\<close>.
  Python's \<open>sig in text\<close> on strings is the contiguous-substring test, which is
  \<^const>\<open>sublist\<close>.
\<close>

fun classify_loop :: "string list \<Rightarrow> string \<Rightarrow> FaultType" where
  "classify_loop [] text = NON_RETRIABLE"
| "classify_loop (sig # sigs) text =
     (if sublist sig text then RETRIABLE else classify_loop sigs text)"

definition classify_fault :: "string \<Rightarrow> FaultType" where
  "classify_fault exc_text = classify_loop RETRIABLE_SIGNATURES (lower exc_text)"

text \<open>
  The specification's reading of a case-insensitive occurrence: some contiguous segment
  of the text equals the signature character by character, where two characters count
  as equal when they are the same or are the capital and the small form of one letter.
\<close>

definition same_letter :: "char \<Rightarrow> char \<Rightarrow> bool" where
  "same_letter a b =
     (a = b \<or>
      (65 \<le> (of_char a :: nat) \<and> (of_char a :: nat) \<le> 90 \<and> (of_char b :: nat) = of_char a + 32) \<or>
      (65 \<le> (of_char b :: nat) \<and> (of_char b :: nat) \<le> 90 \<and> (of_char a :: nat) = of_char b + 32))"

definition eq_ignoring_case :: "string \<Rightarrow> string \<Rightarrow> bool" where
  "eq_ignoring_case a b = list_all2 same_letter a b"

definition spec_contains_ignoring_case :: "string \<Rightarrow> string \<Rightarrow> bool" where
  "spec_contains_ignoring_case text sig =
     (\<exists>ps seg ss. text = ps @ seg @ ss \<and> eq_ignoring_case seg sig)"

section \<open>Retry policy\<close>

text \<open>
  Seconds are Python floats. A finite double is a real number, and scaling a double by a
  power of two is exact unless it overflows to infinity, in which case \<open>min\<close> returns
  \<open>max_backoff\<close>, as it does for the exact product; so delays are modelled as reals.
  What is not exact is the conversion that precedes the product: \<open>2 ** attempt\<close> is an
  unbounded Python int, and \<open>float * int\<close> first converts the int to a float, which
  raises \<open>OverflowError\<close> ("int too large to convert to float") from \<open>2 ** 1024\<close> on.
  The attempt number is counted from 0 and is a natural number.
\<close>

record RetryPolicy =
  max_retries :: int
  base_backoff :: real
  max_backoff :: real

datatype exc =
    Failure string    \<comment> \<open>an exception raised by the work function, with its \<open>str()\<close>\<close>
  | OverflowError     \<comment> \<open>int too large to convert to float; sleep length out of range\<close>
  | ValueError        \<comment> \<open>\<open>time.sleep\<close> of a negative length\<close>

definition pow2_as_float :: "nat \<Rightarrow> exc + real" where
  "pow2_as_float attempt = (if attempt < 1024 then Inr (2 ^ attempt) else Inl OverflowError)"

definition backoff_for :: "RetryPolicy \<Rightarrow> nat \<Rightarrow> exc + real" where
  "backoff_for p attempt =
     (case pow2_as_float attempt of
        Inl e \<Rightarrow> Inl e
      | Inr f \<Rightarrow> Inr (min (max_backoff p) (base_backoff p * f)))"

section \<open>Retry supervisor and termination latch\<close>

text \<open>
  The work function is a parameterless callable with effects of its own. It is modelled
  by what its k-th invocation does: \<open>None\<close> when it returns, \<open>Some text\<close> when it
  raises an exception whose \<open>str()\<close> is \<open>text\<close>. The process state seen by the
  supervisor holds the number of invocations so far, the sleeps performed, the messages
  logged, and the latch of the \<open>GracefulTerminator\<close>.
\<close>

datatype log_msg =
    Retrying string real nat     \<comment> \<open>failure text, delay, attempt + 1\<close>
  | GivingUp string

record proc =
  calls :: nat
  sleeps :: "real list"
  logged :: "log_msg list"
  terminate :: bool

datatype outcome = Returned | Raised exc

definition handle_signal :: "proc \<Rightarrow> proc" where
  "handle_signal w = w\<lparr>terminate := True\<rparr>"

definition should_terminate :: "proc \<Rightarrow> bool" where
  "should_terminate w = terminate w"

definition log_line :: "log_msg \<Rightarrow> proc \<Rightarrow> proc" where
  "log_line m w = w\<lparr>logged := logged w @ [m]\<rparr>"

text \<open>
  \<open>time.sleep\<close> converts the delay to a signed 64-bit count of nanoseconds and raises
  \<open>OverflowError\<close> when it does not fit; a negative delay within that range raises
  \<open>ValueError\<close>. Otherwise the process sleeps for the whole delay; a signal whose
  handler returns normally, as the one of the \<open>GracefulTerminator\<close> does, does not cut
  the sleep short.
\<close>

definition sleep_error :: "real \<Rightarrow> exc option" where
  "sleep_error d =
     (if d * 10 ^ 9 < - (2 ^ 63) \<or> 2 ^ 63 \<le> d * 10 ^ 9 then Some OverflowError
      else if d < 0 then Some ValueError
      else None)"

definition sleep :: "real \<Rightarrow> proc \<Rightarrow> exc + proc" where
  "sleep d w =
     (case sleep_error d of
        Some e \<Rightarrow> Inl e
      | None \<Rightarrow> Inr (w\<lparr>sleeps := sleeps w @ [d]\<rparr>))"

function run_loop ::
  "(nat \<Rightarrow> string option) \<Rightarrow> RetryPolicy \<Rightarrow> nat \<Rightarrow> proc \<Rightarrow> outcome \<times> proc" where
  "run_loop fn retry_policy attempt w =
     (case fn (calls w) of
        None \<Rightarrow> (Returned, w\<lparr>calls := calls w + 1\<rparr>)
      | Some text \<Rightarrow>
          if classify_fault text = RETRIABLE \<and> int attempt < max_retries retry_policy
          then (case backoff_for retry_policy attempt of
                  Inl e \<Rightarrow> (Raised e, w\<lparr>calls := calls w + 1\<rparr>)
                | Inr delay \<Rightarrow>
                    (case sleep delay
                            (log_line (Retrying text delay (attempt + 1))
                               (w\<lparr>calls := calls w + 1\<rparr>)) of
                       Inl e \<Rightarrow>
                         (Raised e,
                          log_line (Retrying text delay (attempt + 1))
                            (w\<lparr>calls := calls w + 1\<rparr>))
                     | Inr w' \<Rightarrow> run_loop fn retry_policy (attempt + 1) w'))
          else (Raised (Failure text), log_line (GivingUp text) (w\<lparr>calls := calls w + 1\<rparr>)))"
  by pat_completeness auto
termination
  by (relation "measure (\<lambda>(fn, p, attempt, w). nat (max_retries p) - attempt)") auto

declare run_loop.simps [simp del]

definition run_with_retries ::
  "(nat \<Rightarrow> string option) \<Rightarrow> RetryPolicy \<Rightarrow> proc \<Rightarrow> outcome \<times> proc" where
  "run_with_retries fn retry_policy w = run_loop fn retry_policy 0 w"

text \<open>A work function that always times out, the property of failing with a transient
  fault at every invocation, and the state of a process before its first invocation.\<close>

definition always_timeout :: "nat \<Rightarrow> string option" where
  "always_timeout k = Some ''timeout''"

definition always_fails_retriable :: "(nat \<Rightarrow> string option) \<Rightarrow> bool" where
  "always_fails_retriable fn = (\<forall>k. \<exists>t. fn k = Some t \<and> classify_fault t = RETRIABLE)"

definition idle :: proc where
  "idle = \<lparr>calls = 0, sleeps = [], logged = [], terminate = False\<rparr>"

section \<open>Filesystem (the part of \<open>os\<close>, \<open>shutil\<close> and \<open>torch\<close> that engine/state.py uses)\<close>

text \<open>
  A path is its list of components; the empty path is the filesystem root and
  \<open>os.path.join p name\<close> is \<open>p @ [name]\<close>. A filesystem is an association list from
  paths to nodes. The order in which \<open>os.listdir\<close> reports the entries of a directory is
  not specified; the list stands for one such order, and the operations below keep
  entries in the order of their creation. The only place where the order decides a
  result is the scan for checkpoints when two entries of the root carry the same step;
  no property stated below has such a pair. The serialized state is an opaque list of
  bytes.
\<close>

type_synonym path = "string list"
type_synonym blob = "nat list"

record CheckpointInfo =
  step :: int
  path :: path
  loss :: "real option"
  timestamp :: real
  ok :: bool

text \<open>The manifest object \<open>{"latest": ..., "checkpoints": [...]}\<close>; each entry of
  \<open>checkpoints\<close> is a dict with exactly the five keys of \<open>CheckpointInfo\<close>.\<close>

record Manifest =
  latest :: "int option"
  checkpoints :: "CheckpointInfo list"

record Meta =
  meta_step :: int
  meta_loss :: "real option"
  meta_timestamp :: real
  meta_rank :: int

datatype content =
    ManifestJson Manifest
  | MetaJson Meta
  | StateFile blob
  | Other string

datatype node = File content | Dir

type_synonym fs = "(path \<times> node) list"

datatype os_error =
    FileNotFoundError
  | FileExistsError
  | NotADirectoryError
  | IsADirectoryError
  | DirectoryNotEmpty
  | InvalidArgument
  | JSONDecodeError
  | UnpicklingError

definition and_then :: "os_error + 'a \<Rightarrow> ('a \<Rightarrow> os_error + 'b) \<Rightarrow> os_error + 'b" where
  "and_then r f = (case r of Inl e \<Rightarrow> Inl e | Inr x \<Rightarrow> f x)"

definition node_at :: "fs \<Rightarrow> path \<Rightarrow> node option" where
  "node_at disk p = (if p = [] then Some Dir else map_of disk p)"

definition path_exists :: "fs \<Rightarrow> path \<Rightarrow> bool" where
  "path_exists disk p = (node_at disk p \<noteq> None)"

definition isfile :: "fs \<Rightarrow> path \<Rightarrow> bool" where
  "isfile disk p = (case node_at disk p of Some (File c) \<Rightarrow> True | _ \<Rightarrow> False)"

definition isdir :: "fs \<Rightarrow> path \<Rightarrow> bool" where
  "isdir disk p = (node_at disk p = Some Dir)"

definition entries_of :: "fs \<Rightarrow> path \<Rightarrow> string list" where
  "entries_of disk p = map last (filter (\<lambda>q. q \<noteq> [] \<and> butlast q = p) (map fst disk))"

definition listdir :: "fs \<Rightarrow> path \<Rightarrow> os_error + string list" where
  "listdir disk p =
     (case node_at disk p of
        None \<Rightarrow> Inl FileNotFoundError
      | Some (File c) \<Rightarrow> Inl NotADirectoryError
      | Some Dir \<Rightarrow> Inr (entries_of disk p))"

definition parent_check :: "fs \<Rightarrow> path \<Rightarrow> os_error + unit" where
  "parent_check disk p =
     (case node_at disk (butlast p) of
        None \<Rightarrow> Inl FileNotFoundError
      | Some (File c) \<Rightarrow> Inl NotADirectoryError
      | Some Dir \<Rightarrow> Inr ())"

definition mkdir :: "fs \<Rightarrow> path \<Rightarrow> os_error + fs" where
  "mkdir disk p =
     (if path_exists disk p then Inl FileExistsError
      else and_then (parent_check disk p) (\<lambda>_. Inr (disk @ [(p, Dir)])))"

text \<open>\<open>os.makedirs(path, exist_ok=True)\<close>: create the missing ancestors first, then the
  directory itself; an existing directory is accepted.\<close>

function makedirs :: "fs \<Rightarrow> path \<Rightarrow> os_error + fs" where
  "makedirs disk p =
     (if p = [] then Inr disk
      else
        (case (if path_exists disk (butlast p) then Inr disk
               else (case makedirs disk (butlast p) of
                       Inl FileExistsError \<Rightarrow> Inr disk
                     | r \<Rightarrow> r)) of
           Inl e \<Rightarrow> Inl e
         | Inr disk1 \<Rightarrow>
             (case mkdir disk1 p of
                Inl e \<Rightarrow> if isdir disk1 p then Inr disk1 else Inl e
              | Inr disk2 \<Rightarrow> Inr disk2)))"
  by pat_completeness auto
termination
  by (relation "measure (\<lambda>(disk, p). length p)") auto

declare makedirs.simps [simp del]

definition safe_makedirs :: "fs \<Rightarrow> path \<Rightarrow> os_error + fs" where
  "safe_makedirs disk p = makedirs disk p"

text \<open>\<open>open(path, "w")\<close> followed by writing the whole content.\<close>

definition write_file :: "fs \<Rightarrow> path \<Rightarrow> content \<Rightarrow> os_error + fs" where
  "write_file disk p c =
     (case node_at disk p of
        Some Dir \<Rightarrow> Inl IsADirectoryError
      | Some (File old) \<Rightarrow> Inr (AList.update p (File c) disk)
      | None \<Rightarrow> and_then (parent_check disk p) (\<lambda>_. Inr (disk @ [(p, File c)])))"

text \<open>\<open>shutil.rmtree(path, ignore_errors=True)\<close>: a directory goes with everything below
  it; on anything else the error is ignored and nothing changes.\<close>

definition rmtree :: "fs \<Rightarrow> path \<Rightarrow> fs" where
  "rmtree disk p = (if isdir disk p then filter (\<lambda>(q, n). \<not> prefix p q) disk else disk)"

text \<open>\<open>os.replace(src, dst)\<close> on POSIX: a file replaces a file, a directory replaces an
  empty directory, and everything below a moved directory moves with it.\<close>

definition rename_key :: "path \<Rightarrow> path \<Rightarrow> path \<Rightarrow> path" where
  "rename_key src dst q = (if prefix src q then dst @ drop (length src) q else q)"

definition move :: "fs \<Rightarrow> path \<Rightarrow> path \<Rightarrow> fs" where
  "move disk src dst =
     map (\<lambda>(q, n). (rename_key src dst q, n)) (filter (\<lambda>(q, n). q \<noteq> dst) disk)"

definition replace :: "fs \<Rightarrow> path \<Rightarrow> path \<Rightarrow> os_error + fs" where
  "replace disk src dst =
     (case node_at disk src of
        None \<Rightarrow> Inl FileNotFoundError
      | Some (File c) \<Rightarrow>
          (case node_at disk dst of
             Some Dir \<Rightarrow> Inl IsADirectoryError
           | Some (File old) \<Rightarrow> if src = dst then Inr disk else Inr (move disk src dst)
           | None \<Rightarrow> and_then (parent_check disk dst) (\<lambda>_. Inr (move disk src dst)))
      | Some Dir \<Rightarrow>
          (if src = dst then Inr disk
           else if prefix src dst then Inl InvalidArgument
           else
             (case node_at disk dst of
                Some (File old) \<Rightarrow> Inl NotADirectoryError
              | Some Dir \<Rightarrow>
                  if entries_of disk dst = [] then Inr (move disk src dst)
                  else Inl DirectoryNotEmpty
              | None \<Rightarrow> and_then (parent_check disk dst) (\<lambda>_. Inr (move disk src dst)))))"

text \<open>Every entry has a parent directory and is listed once: the states a real
  filesystem can be in.\<close>

definition wf_fs :: "fs \<Rightarrow> bool" where
  "wf_fs disk =
     (distinct (map fst disk) \<and>
      list_all (\<lambda>(q, n). q \<noteq> [] \<and> node_at disk (butlast q) = Some Dir) disk)"

section \<open>Checkpoint manifest manager (engine/state.py)\<close>

definition MANIFEST :: string where "MANIFEST = ''manifest.json''"
definition STATE_FILE :: string where "STATE_FILE = ''state.pt''"
definition META_FILE :: string where "META_FILE = ''meta.json''"

text \<open>
  The collaborators imported from the \<open>distributed\<close> module (\<open>barrier\<close>, \<open>get_rank\<close>,
  \<open>is_main_process\<close>) and the clock are parameters: the rank and the leader flag of the
  calling process and the successive readings of \<open>time.time()\<close> are given by the
  environment, a call of \<open>barrier()\<close> is counted.
\<close>

record env =
  root_dir :: path
  rank :: int
  main_process :: bool
  time_at :: "nat \<Rightarrow> real"

record world =
  disk :: fs
  barriers :: nat
  ticks :: nat

definition barrier :: "world \<Rightarrow> world" where
  "barrier w = w\<lparr>barriers := barriers w + 1\<rparr>"

definition time_time :: "env \<Rightarrow> world \<Rightarrow> real \<times> world" where
  "time_time e w = (time_at e (ticks w), w\<lparr>ticks := ticks w + 1\<rparr>)"

text \<open>\<open>f"{path}.tmp"\<close>: the suffix lands on the last component.\<close>

definition add_suffix :: "path \<Rightarrow> string \<Rightarrow> path" where
  "add_suffix p s = butlast p @ [last p @ s]"

definition atomic_write :: "fs \<Rightarrow> path \<Rightarrow> content \<Rightarrow> os_error + fs" where
  "atomic_write d p c =
     and_then (write_file d (add_suffix p ''.tmp'') c)
       (\<lambda>d1. replace d1 (add_suffix p ''.tmp'') p)"

definition handler_init :: "env \<Rightarrow> fs \<Rightarrow> os_error + fs" where
  "handler_init e d = safe_makedirs d (root_dir e)"

definition manifest_path :: "env \<Rightarrow> path" where
  "manifest_path e = root_dir e @ [MANIFEST]"

text \<open>The format \<open>{step:08d}\<close>: decimal digits, zero-padded to width 8, the sign counted
  in the width.\<close>

definition digit_char :: "nat \<Rightarrow> char" where
  "digit_char d = char_of (48 + d)"

function digits :: "nat \<Rightarrow> string" where
  "digits n = (if n < 10 then [digit_char n] else digits (n div 10) @ [digit_char (n mod 10)])"
  by pat_completeness auto
termination
  by (relation "measure id") auto

declare digits.simps [simp del]

definition format_08d :: "int \<Rightarrow> string" where
  "format_08d i =
     (if i < 0
      then CHR ''-'' # replicate (7 - length (digits (nat (- i)))) CHR ''0'' @ digits (nat (- i))
      else replicate (8 - length (digits (nat i))) CHR ''0'' @ digits (nat i))"

definition checkpoint_dir :: "env \<Rightarrow> int \<Rightarrow> path" where
  "checkpoint_dir e s = root_dir e @ [''step_'' @ format_08d s]"

definition load_manifest :: "env \<Rightarrow> fs \<Rightarrow> os_error + Manifest" where
  "load_manifest e d =
     (case node_at d (manifest_path e) of
        None \<Rightarrow> Inr \<lparr>latest = None, checkpoints = []\<rparr>
      | Some Dir \<Rightarrow> Inl IsADirectoryError
      | Some (File (ManifestJson m)) \<Rightarrow> Inr m
      | Some (File c) \<Rightarrow> Inl JSONDecodeError)"

definition write_manifest :: "env \<Rightarrow> fs \<Rightarrow> Manifest \<Rightarrow> os_error + fs" where
  "write_manifest e d m = atomic_write d (manifest_path e) (ManifestJson m)"

text \<open>\<open>entries[-20:]\<close>: the last 20 elements, all of them when there are fewer.\<close>

definition last20 :: "'a list \<Rightarrow> 'a list" where
  "last20 xs = drop (length xs - 20) xs"

definition record_manifest :: "Manifest \<Rightarrow> CheckpointInfo \<Rightarrow> Manifest" where
  "record_manifest m info =
     \<lparr>latest = (if ok info then Some (step info) else latest m),
      checkpoints = last20 (checkpoints m @ [info])\<rparr>"

definition record_checkpoint :: "env \<Rightarrow> fs \<Rightarrow> CheckpointInfo \<Rightarrow> os_error + fs" where
  "record_checkpoint e d info =
     and_then (load_manifest e d) (\<lambda>m. write_manifest e d (record_manifest m info))"

text \<open>The rendering of a path as the string the caller receives.\<close>

definition path_str :: "path \<Rightarrow> string" where
  "path_str p = concat (map (\<lambda>c. CHR ''/'' # c) p)"

text \<open>
  \<open>save\<close>, leader branch, in the two parts that the rename separates: first the state
  and its metadata are written into the temporary directory, then the directory is
  renamed to its final name and recorded in the manifest. A crash between the two leaves
  the disk as the first part made it.
\<close>

definition save_write_tmp ::
  "env \<Rightarrow> int \<Rightarrow> blob \<Rightarrow> real option \<Rightarrow> world \<Rightarrow> os_error + world" where
  "save_write_tmp e s state l w =
     (let ckpt_dir = checkpoint_dir e s;
          tmp_dir = add_suffix ckpt_dir ''.tmp'';
          d0 = (if path_exists (disk w) tmp_dir then rmtree (disk w) tmp_dir else disk w)
      in and_then (safe_makedirs d0 tmp_dir) (\<lambda>d1.
         and_then (write_file d1 (tmp_dir @ [STATE_FILE]) (StateFile state)) (\<lambda>d2.
         (case time_time e w of (t, w1) \<Rightarrow>
            and_then
              (atomic_write d2 (tmp_dir @ [META_FILE])
                 (MetaJson \<lparr>meta_step = s, meta_loss = l, meta_timestamp = t, meta_rank = rank e\<rparr>))
              (\<lambda>d3. Inr (w1\<lparr>disk := d3\<rparr>))))))"

definition save_publish ::
  "env \<Rightarrow> int \<Rightarrow> real option \<Rightarrow> world \<Rightarrow> os_error + (path \<times> world)" where
  "save_publish e s l w =
     (let ckpt_dir = checkpoint_dir e s;
          tmp_dir = add_suffix ckpt_dir ''.tmp''
      in and_then (replace (disk w) tmp_dir ckpt_dir) (\<lambda>d4.
         (case time_time e w of (t, w1) \<Rightarrow>
            and_then
              (record_checkpoint e d4
                 \<lparr>step = s, path = ckpt_dir, loss = l, timestamp = t, ok = True\<rparr>)
              (\<lambda>d5. Inr (ckpt_dir, barrier (w1\<lparr>disk := d5\<rparr>))))))"

definition save ::
  "env \<Rightarrow> int \<Rightarrow> blob \<Rightarrow> real option \<Rightarrow> bool option \<Rightarrow> world \<Rightarrow> os_error + (string \<times> world)" where
  "save e s state l is_main w =
     (let should_write = (case is_main of Some b \<Rightarrow> b | None \<Rightarrow> main_process e)
      in if \<not> should_write then Inr ('''', barrier w)
         else and_then (save_write_tmp e s state l w) (\<lambda>w1.
              and_then (save_publish e s l w1) (\<lambda>(p, w2). Inr (path_str p, w2))))"

definition list_checkpoints :: "env \<Rightarrow> fs \<Rightarrow> os_error + CheckpointInfo list" where
  "list_checkpoints e d = and_then (load_manifest e d) (\<lambda>m. Inr (checkpoints m))"

definition is_valid_checkpoint :: "fs \<Rightarrow> path \<Rightarrow> os_error + bool" where
  "is_valid_checkpoint d p =
     (let has_state = isfile d (p @ [STATE_FILE]);
          has_meta = isfile d (p @ [META_FILE])
      in if \<not> path_exists d p then Inr False
         else if \<not> has_meta then Inr False
         else if has_state then Inr True
         else and_then (listdir d p) (\<lambda>names. Inr (length names > 0)))"

text \<open>The pattern \<open>step_\<close> followed by one or more digits, applied with \<open>match\<close>: it must match at the start of the
  name, and \<open>int\<close> reads the digits of the group.\<close>

definition is_digit :: "char \<Rightarrow> bool" where
  "is_digit c = (48 \<le> (of_char c :: nat) \<and> (of_char c :: nat) \<le> 57)"

definition int_of_digits :: "string \<Rightarrow> nat" where
  "int_of_digits s = foldl (\<lambda>acc c. 10 * acc + ((of_char c :: nat) - 48)) 0 s"

definition match_step :: "string \<Rightarrow> int option" where
  "match_step name =
     (if take 5 name = ''step_'' \<and> takeWhile is_digit (drop 5 name) \<noteq> []
      then Some (int (int_of_digits (takeWhile is_digit (drop 5 name))))
      else None)"

definition scan_checkpoint_dirs :: "env \<Rightarrow> fs \<Rightarrow> os_error + (int \<times> path) list" where
  "scan_checkpoint_dirs e d =
     and_then (listdir d (root_dir e)) (\<lambda>names.
       Inr (sort_key (\<lambda>(s, p). - s)
              (List.map_filter
                 (\<lambda>name. case match_step name of
                            None \<Rightarrow> None
                          | Some s \<Rightarrow> Some (s, root_dir e @ [name]))
                 names)))"

definition found :: "int \<Rightarrow> path \<Rightarrow> CheckpointInfo" where
  "found s p = \<lparr>step = s, path = p, loss = None, timestamp = 0, ok = True\<rparr>"

fun first_valid :: "fs \<Rightarrow> (int \<times> path) list \<Rightarrow> os_error + CheckpointInfo option" where
  "first_valid d [] = Inr None"
| "first_valid d ((s, p) # cs) =
     and_then (is_valid_checkpoint d p) (\<lambda>v. if v then Inr (Some (found s p)) else first_valid d cs)"

definition manifest_pointer :: "env \<Rightarrow> fs \<Rightarrow> Manifest \<Rightarrow> os_error + CheckpointInfo option" where
  "manifest_pointer e d m =
     (case latest m of
        None \<Rightarrow> Inr None
      | Some l \<Rightarrow>
          and_then (is_valid_checkpoint d (checkpoint_dir e l)) (\<lambda>v.
            Inr (if v then Some (found l (checkpoint_dir e l)) else None)))"

definition scan_fallback :: "env \<Rightarrow> fs \<Rightarrow> os_error + CheckpointInfo option" where
  "scan_fallback e d = and_then (scan_checkpoint_dirs e d) (first_valid d)"

definition latest_checkpoint :: "env \<Rightarrow> fs \<Rightarrow> os_error + CheckpointInfo option" where
  "latest_checkpoint e d =
     and_then (load_manifest e d) (\<lambda>m.
     and_then (manifest_pointer e d m) (\<lambda>r.
       case r of Some info \<Rightarrow> Inr (Some info) | None \<Rightarrow> scan_fallback e d))"

definition load :: "fs \<Rightarrow> path \<Rightarrow> os_error + blob" where
  "load d p =
     (case node_at d (p @ [STATE_FILE]) of
        None \<Rightarrow> Inl FileNotFoundError
      | Some Dir \<Rightarrow> Inl IsADirectoryError
      | Some (File (StateFile b)) \<Rightarrow> Inr b
      | Some (File c) \<Rightarrow> Inl UnpicklingError)"

definition record_external ::
  "env \<Rightarrow> int \<Rightarrow> path \<Rightarrow> real option \<Rightarrow> world \<Rightarrow> os_error + world" where
  "record_external e s p l w =
     and_then (safe_makedirs (disk w) p) (\<lambda>d1.
       (case time_time e w of (t1, w1) \<Rightarrow>
          and_then
            (atomic_write d1 (p @ [META_FILE])
               (MetaJson \<lparr>meta_step = s, meta_loss = l, meta_timestamp = t1, meta_rank = rank e\<rparr>))
            (\<lambda>d2.
               (case time_time e w1 of (t2, w2) \<Rightarrow>
                  and_then
                    (record_checkpoint e d2
                       \<lparr>step = s, path = p, loss = l, timestamp = t2, ok = True\<rparr>)
                    (\<lambda>d3. Inr (w2\<lparr>disk := d3\<rparr>))))))"

definition mark_bad :: "int \<Rightarrow> CheckpointInfo list \<Rightarrow> CheckpointInfo list" where
  "mark_bad s cs = map (\<lambda>c. if step c = s then c\<lparr>ok := False\<rparr> else c) cs"

definition load_latest_checkpoint ::
  "env \<Rightarrow> fs \<Rightarrow> os_error + ((CheckpointInfo \<times> blob) option \<times> fs)" where
  "load_latest_checkpoint e d =
     and_then (latest_checkpoint e d) (\<lambda>r.
       case r of
         None \<Rightarrow> Inr (None, d)
       | Some info \<Rightarrow>
           (case load d (path info) of
              Inr state \<Rightarrow> Inr (Some (info, state), d)
            | Inl err \<Rightarrow>
                and_then (load_manifest e d) (\<lambda>m.
                and_then
                  (write_manifest e d (m\<lparr>checkpoints := mark_bad (step info) (checkpoints m)\<rparr>))
                  (\<lambda>d'. Inr (None, d')))))"

text \<open>The invariant of the manifest: \<open>latest\<close>, when set, is the step of a recorded
  checkpoint whose \<open>ok\<close> flag is true.\<close>

definition latest_names_ok_record :: "Manifest \<Rightarrow> bool" where
  "latest_names_ok_record m =
     (case latest m of
        None \<Rightarrow> True
      | Some l \<Rightarrow> list_ex (\<lambda>c. step c = l \<and> ok c) (checkpoints m))"

text \<open>A concrete process for examples: the leader, rank 0, rooted at \<open>/ckpt\<close>, with the
  clock reading 100, 101, ...\<close>

definition leader :: env where
  "leader = \<lparr>root_dir = [''ckpt''], rank = 0, main_process = True, time_at = (\<lambda>n. 100 + real n)\<rparr>"

definition fresh :: world where
  "fresh = \<lparr>disk = [([''ckpt''], Dir)], barriers = 0, ticks = 0\<rparr>"

text \<open>Disk states of the examples: after a first save of step 7 that crashed before the
  rename; after \<open>record_external\<close> of step 7 at its own checkpoint directory; the latter
  after a failed load; and a directory that holds a metadata file and nothing else.\<close>

definition crashed_disk :: fs where
  "crashed_disk =
     [([''ckpt''], Dir),
      ([''ckpt'', ''step_00000007.tmp''], Dir),
      ([''ckpt'', ''step_00000007.tmp'', ''state.pt''], File (StateFile [1, 2, 3])),
      ([''ckpt'', ''step_00000007.tmp'', ''meta.json''],
       File (MetaJson \<lparr>meta_step = 7, meta_loss = None, meta_timestamp = 100, meta_rank = 0\<rparr>))]"

definition external_disk :: fs where
  "external_disk =
     [([''ckpt''], Dir),
      ([''ckpt'', ''step_00000007''], Dir),
      ([''ckpt'', ''step_00000007'', ''meta.json''],
       File (MetaJson \<lparr>meta_step = 7, meta_loss = None, meta_timestamp = 100, meta_rank = 0\<rparr>)),
      ([''ckpt'', ''manifest.json''],
       File (ManifestJson
         \<lparr>latest = Some 7,
          checkpoints = [\<lparr>step = 7, path = [''ckpt'', ''step_00000007''], loss = None,
                          timestamp = 101, ok = True\<rparr>]\<rparr>))]"

definition marked_manifest :: Manifest where
  "marked_manifest =
     \<lparr>latest = Some 7,
      checkpoints = [\<lparr>step = 7, path = [''ckpt'', ''step_00000007''], loss = None,
                      timestamp = 101, ok = False\<rparr>]\<rparr>"

definition marked_disk :: fs where
  "marked_disk =
     [([''ckpt''], Dir),
      ([''ckpt'', ''step_00000007''], Dir),
      ([''ckpt'', ''step_00000007'', ''meta.json''],
       File (MetaJson \<lparr>meta_step = 7, meta_loss = None, meta_timestamp = 100, meta_rank = 0\<rparr>)),
      ([''ckpt'', ''manifest.json''], File (ManifestJson marked_manifest))]"

definition meta_only_disk :: fs where
  "meta_only_disk =
     [([''ckpt''], Dir),
      ([''ckpt'', ''step_00000003''], Dir),
      ([''ckpt'', ''step_00000003'', ''meta.json''],
       File (MetaJson \<lparr>meta_step = 3, meta_loss = None, meta_timestamp = 100, meta_rank = 0\<rparr>))]"

text \<open>
  The disk after this history on a fresh root: the leader saves step 9, registers step 7
  with \<open>record_external\<close> at \<open>/ext/ds7\<close> with loss 0.5, registers step 7 again at the
  checkpoint directory of step 7, and \<open>load_latest_checkpoint\<close> fails for want of a
  state file. The manifest names step 7 as latest; its records of step 7 are marked bad,
  and one of them is stored at \<open>/ext/ds7\<close>.
\<close>

definition pointer_manifest :: Manifest where
  "pointer_manifest =
     \<lparr>latest = Some 7,
      checkpoints =
        [\<lparr>step = 9, path = [''ckpt'', ''step_00000009''], loss = None,
           timestamp = 101, ok = True\<rparr>,
         \<lparr>step = 7, path = [''ext'', ''ds7''], loss = Some (1 / 2),
           timestamp = 103, ok = False\<rparr>,
         \<lparr>step = 7, path = [''ckpt'', ''step_00000007''], loss = None,
           timestamp = 105, ok = False\<rparr>]\<rparr>"

definition pointer_disk :: fs where
  "pointer_disk =
     [([''ckpt''], Dir),
      ([''ckpt'', ''step_00000009''], Dir),
      ([''ckpt'', ''step_00000009'', ''state.pt''], File (StateFile [9])),
      ([''ckpt'', ''step_00000009'', ''meta.json''],
       File (MetaJson \<lparr>meta_step = 9, meta_loss = None, meta_timestamp = 100, meta_rank = 0\<rparr>)),
      ([''ext''], Dir),
      ([''ext'', ''ds7''], Dir),
      ([''ext'', ''ds7'', ''meta.json''],
       File (MetaJson \<lparr>meta_step = 7, meta_loss = Some (1 / 2), meta_timestamp = 102,
                       meta_rank = 0\<rparr>)),
      ([''ckpt'', ''step_00000007''], Dir),
      ([''ckpt'', ''step_00000007'', ''meta.json''],
       File (MetaJson \<lparr>meta_step = 7, meta_loss = None, meta_timestamp = 104, meta_rank = 0\<rparr>)),
      ([''ckpt'', ''manifest.json''], File (ManifestJson pointer_manifest))]"

text \<open>Helpers for stating what a save writes: the entries of a complete checkpoint
  directory at \<open>p\<close>, the absence of any entry at or below a path, and a sequence of
  leader saves that stops at the first error.\<close>

definition checkpoint_entries ::
  "env \<Rightarrow> path \<Rightarrow> int \<Rightarrow> blob \<Rightarrow> real option \<Rightarrow> real \<Rightarrow> fs" where
  "checkpoint_entries e p s state l t =
     [(p, Dir),
      (p @ [STATE_FILE], File (StateFile state)),
      (p @ [META_FILE],
       File (MetaJson \<lparr>meta_step = s, meta_loss = l, meta_timestamp = t, meta_rank = rank e\<rparr>))]"

definition keys_clear :: "fs \<Rightarrow> path \<Rightarrow> bool" where
  "keys_clear d p = (\<forall>q \<in> fst ` set d. \<not> prefix p q)"

fun save_all :: "env \<Rightarrow> (int \<times> blob \<times> real option) list \<Rightarrow> world \<Rightarrow> os_error + world" where
  "save_all e [] w = Inr w"
| "save_all e ((s, state, l) # rest) w =
     and_then (save e s state l (Some True) w) (\<lambda>(p, w'). save_all e rest w')"

text \<open>
  For sequences of saves: a checkpoint root that exists and is empty; the invariant that
  below the root there is nothing but the manifest and the checkpoint directories of a
  set of steps; the disk a successful leader save leaves; a record as \<open>save\<close> writes
  it; and twenty-five saves of the steps 1 to 25.
\<close>

definition managed :: "env \<Rightarrow> int set \<Rightarrow> fs \<Rightarrow> bool" where
  "managed e S d =
     (node_at d (root_dir e) = Some Dir \<and>
      (\<forall>q \<in> fst ` set d. prefix (root_dir e) q \<longrightarrow>
         q = root_dir e \<or> q = manifest_path e \<or> (\<exists>s \<in> S. prefix (checkpoint_dir e s) q)))"

definition saved_disk :: "env \<Rightarrow> int \<Rightarrow> blob \<Rightarrow> real option \<Rightarrow> Manifest \<Rightarrow> world \<Rightarrow> fs" where
  "saved_disk e s state l m w =
     filter (\<lambda>(q, n). q \<noteq> manifest_path e) (disk w)
     @ checkpoint_entries e (checkpoint_dir e s) s state l (time_at e (ticks w))
     @ [(manifest_path e,
         File (ManifestJson (record_manifest m
           \<lparr>step = s, path = checkpoint_dir e s, loss = l,
            timestamp = time_at e (ticks w + 1), ok = True\<rparr>)))]"

definition empty_root :: "env \<Rightarrow> fs \<Rightarrow> bool" where
  "empty_root e d =
     (isdir d (root_dir e) \<and>
      (\<forall>q \<in> fst ` set d. prefix (root_dir e) q \<longrightarrow> q = root_dir e))"

definition twenty_five_saves :: "(int \<times> blob \<times> real option) list" where
  "twenty_five_saves = map (\<lambda>i. (int i, [i], None)) [1..<26]"

definition own_record :: "env \<Rightarrow> CheckpointInfo \<Rightarrow> bool" where
  "own_record e c = (ok c \<and> path c = checkpoint_dir e (step c))"

section \<open>Properties of the fault classifier\<close>

lemma classify_loop_iff:
  "classify_loop sigs t = RETRIABLE \<longleftrightarrow> (\<exists>sig \<in> set sigs. sublist sig t)"
  by (induction sigs) auto

lemma signatures_lower: "\<forall>sig \<in> set RETRIABLE_SIGNATURES. map lower_char sig = sig"
  by code_simp

lemma map_eq_append_split:
  assumes "map f xs = ps @ ys @ ss"
  shows "\<exists>ps' seg ss'. xs = ps' @ seg @ ss' \<and> map f seg = ys"
proof -
  let ?a = "take (length ps) xs"
  let ?b = "take (length ys) (drop (length ps) xs)"
  let ?c = "drop (length ys) (drop (length ps) xs)"
  have "xs = ?a @ ?b @ ?c" by (simp only: append_take_drop_id)
  moreover have "map f ?b = take (length ys) (drop (length ps) (map f xs))"
    by (simp add: take_map drop_map)
  then have "map f ?b = ys" by (simp add: assms)
  ultimately show ?thesis by blast
qed

lemma of_char_lower_char:
  "(of_char (lower_char c) :: nat) =
     (if 65 \<le> (of_char c :: nat) \<and> (of_char c :: nat) \<le> 90 then of_char c + 32 else of_char c)"
  by (simp add: lower_char_def)

lemma same_letter_iff: "same_letter a b \<longleftrightarrow> lower_char a = lower_char b"
proof -
  have "lower_char a = lower_char b \<longleftrightarrow>
        (of_char (lower_char a) :: nat) = of_char (lower_char b)"
    by simp
  also have "\<dots> \<longleftrightarrow> same_letter a b"
    unfolding of_char_lower_char same_letter_def
    using of_char_eq_iff [of a b, where ?'a = nat] by (auto split: if_splits)
  finally show ?thesis by simp
qed

lemma eq_ignoring_case_iff: "eq_ignoring_case a b \<longleftrightarrow> map lower_char a = map lower_char b"
proof (induction a arbitrary: b)
  case Nil
  then show ?case by (simp add: eq_ignoring_case_def)
next
  case (Cons x xs)
  then show ?case
    by (cases b) (simp_all add: eq_ignoring_case_def same_letter_iff)
qed

lemma sublist_lower_iff:
  assumes "map lower_char sig = sig"
  shows "sublist sig (lower text) \<longleftrightarrow> spec_contains_ignoring_case text sig"
proof
  assume "sublist sig (lower text)"
  then have "\<exists>ps ss. map lower_char text = ps @ sig @ ss"
    by (simp add: sublist_def lower_def)
  then obtain ps ss where "map lower_char text = ps @ sig @ ss"
    by (elim exE)
  from map_eq_append_split [OF this]
  obtain ps' seg ss' where s: "text = ps' @ seg @ ss'" "map lower_char seg = sig"
    by (elim exE conjE)
  have "eq_ignoring_case seg sig"
    by (simp add: eq_ignoring_case_iff s(2) assms)
  with s(1) show "spec_contains_ignoring_case text sig"
    unfolding spec_contains_ignoring_case_def by (intro exI conjI)
next
  assume "spec_contains_ignoring_case text sig"
  then obtain ps seg ss where t: "text = ps @ seg @ ss" and s: "eq_ignoring_case seg sig"
    unfolding spec_contains_ignoring_case_def by (elim exE conjE)
  have "map lower_char seg = sig"
    using s assms by (simp add: eq_ignoring_case_iff)
  then have "lower text = map lower_char ps @ sig @ map lower_char ss"
    by (simp add: t lower_def)
  then show "sublist sig (lower text)"
    unfolding sublist_def by (intro exI)
qed

text \<open>
  Claim C6. \<open>classify_fault\<close> is a function of the failure text alone (so identical
  texts receive identical classifications), and it answers \<open>RETRIABLE\<close> exactly when
  the text contains, disregarding the case of letters, one of the fixed transient
  signatures; every other text is \<open>NON_RETRIABLE\<close>.
\<close>

theorem classify_fault_signatures:
  "classify_fault text =
     (if \<exists>sig \<in> set RETRIABLE_SIGNATURES. spec_contains_ignoring_case text sig
      then RETRIABLE else NON_RETRIABLE)"
proof -
  have "(\<exists>sig \<in> set RETRIABLE_SIGNATURES. sublist sig (lower text)) \<longleftrightarrow>
        (\<exists>sig \<in> set RETRIABLE_SIGNATURES. spec_contains_ignoring_case text sig)"
    by (rule bex_cong [OF refl]) (simp add: sublist_lower_iff signatures_lower)
  then have "classify_fault text = RETRIABLE \<longleftrightarrow>
        (\<exists>sig \<in> set RETRIABLE_SIGNATURES. spec_contains_ignoring_case text sig)"
    by (simp only: classify_fault_def classify_loop_iff)
  then show ?thesis
    by (cases "classify_fault text") simp_all
qed

theorem classify_fault_signatures_witness:
  "classify_fault ''Read Timeout on socket'' = RETRIABLE"
proof -
  have "eq_ignoring_case ''Timeout'' ''timeout''"
    by (simp add: eq_ignoring_case_def same_letter_def)
  then have "''Read '' @ ''Timeout'' @ '' on socket'' = ''Read '' @ ''Timeout'' @ '' on socket''
      \<and> eq_ignoring_case ''Timeout'' ''timeout''"
    by (intro conjI refl)
  then have "spec_contains_ignoring_case (''Read '' @ ''Timeout'' @ '' on socket'') ''timeout''"
    unfolding spec_contains_ignoring_case_def by (intro exI)
  then have "spec_contains_ignoring_case ''Read Timeout on socket'' ''timeout''"
    by simp
  moreover have "''timeout'' \<in> set RETRIABLE_SIGNATURES"
    by (simp add: RETRIABLE_SIGNATURES_def)
  ultimately have "\<exists>sig \<in> set RETRIABLE_SIGNATURES.
      spec_contains_ignoring_case ''Read Timeout on socket'' sig"
    by (rule_tac bexI)
  then show ?thesis
    by (simp only: classify_fault_signatures [of "''Read Timeout on socket''"] if_True)
qed

section \<open>Properties of the retry policy\<close>

lemma backoff_for_in_range:
  "attempt < 1024 \<Longrightarrow>
   backoff_for p attempt = Inr (min (max_backoff p) (base_backoff p * 2 ^ attempt))"
  by (simp add: backoff_for_def pow2_as_float_def)

lemma backoff_for_capped:
  "backoff_for p attempt = Inr d \<Longrightarrow> d \<le> max_backoff p"
  by (auto simp: backoff_for_def pow2_as_float_def split: if_splits)

lemma backoff_for_mono:
  assumes "0 \<le> base_backoff p" "a \<le> b" "backoff_for p a = Inr da" "backoff_for p b = Inr db"
  shows "da \<le> db"
proof -
  have "(2::real) ^ a \<le> 2 ^ b" using assms(2) by (simp add: power_increasing)
  then have "base_backoff p * 2 ^ a \<le> base_backoff p * 2 ^ b"
    using assms(1) by (rule mult_left_mono)
  then show ?thesis
    using assms(3,4) by (auto simp: backoff_for_def pow2_as_float_def split: if_splits)
qed

lemma backoff_for_nonneg:
  "0 \<le> base_backoff p \<Longrightarrow> 0 \<le> max_backoff p \<Longrightarrow> backoff_for p a = Inr d \<Longrightarrow> 0 \<le> d"
  by (auto simp: backoff_for_def pow2_as_float_def split: if_splits)

text \<open>
  Within the range of the int-to-float conversion the delay is the capped exponential:
  for a policy with a non-negative base it is at most \<open>max_backoff\<close> and
  non-decreasing in the attempt number.
\<close>

lemma backoff_for_spec_in_range:
  assumes "0 < base_backoff p" "base_backoff p \<le> max_backoff p" "a \<le> b" "b < 1024"
  shows "\<exists>da db. backoff_for p a = Inr da \<and> backoff_for p b = Inr db \<and>
           da = min (max_backoff p) (base_backoff p * 2 ^ a) \<and>
           da \<le> max_backoff p \<and> da \<le> db"
proof -
  have a: "backoff_for p a = Inr (min (max_backoff p) (base_backoff p * 2 ^ a))"
    using assms(3,4) by (simp add: backoff_for_in_range)
  have b: "backoff_for p b = Inr (min (max_backoff p) (base_backoff p * 2 ^ b))"
    using assms(4) by (simp add: backoff_for_in_range)
  have "min (max_backoff p) (base_backoff p * 2 ^ a) \<le> min (max_backoff p) (base_backoff p * 2 ^ b)"
    using backoff_for_mono [OF _ assms(3) a b] assms(1) by simp
  then show ?thesis using a b by simp
qed

text \<open>
  Claim C7. For every attempt the delay is \<open>min(maxBackoffSeconds, baseBackoffSeconds * 2^attempt)\<close>.
  The code computes this up to attempt 1023; at attempt 1024 the default policy
  (3 retries, base 10 s, cap 300 s) raises \<open>OverflowError\<close> instead of returning the
  cap of 300 seconds.
\<close>

theorem backoff_for_overflow:
  "backoff_for \<lparr>max_retries = 3, base_backoff = 10, max_backoff = 300\<rparr> 1023 = Inr 300 \<and>
   backoff_for \<lparr>max_retries = 3, base_backoff = 10, max_backoff = 300\<rparr> 1024 = Inl OverflowError"
  by (simp add: backoff_for_def pow2_as_float_def)

section \<open>Properties of the retry supervisor\<close>

lemma run_loop_retry_step:
  assumes "fn (calls w) = Some t" "classify_fault t = RETRIABLE" "int attempt < max_retries p"
    "backoff_for p attempt = Inr d" "sleep_error d = None"
  shows "run_loop fn p attempt w =
         run_loop fn p (attempt + 1)
           (w\<lparr>calls := calls w + 1,
              logged := logged w @ [Retrying t d (attempt + 1)],
              sleeps := sleeps w @ [d]\<rparr>)"
  using assms
  by (subst run_loop.simps) (simp add: sleep_def log_line_def)

lemma sleep_in_range: "0 \<le> d \<Longrightarrow> d * 10 ^ 9 < 2 ^ 63 \<Longrightarrow> sleep_error d = None"
  by (simp add: sleep_error_def)

lemma retry_delay:
  assumes "0 \<le> base_backoff p" "0 \<le> max_backoff p" "attempt < 1024"
    "max_backoff p * 10 ^ 9 < 2 ^ 63"
  shows "\<exists>d. backoff_for p attempt = Inr d \<and> sleep_error d = None"
proof -
  let ?d = "min (max_backoff p) (base_backoff p * 2 ^ attempt)"
  have "0 \<le> ?d" using assms(1,2) by simp
  moreover have "?d * 10 ^ 9 \<le> max_backoff p * 10 ^ 9"
    by (intro mult_right_mono) simp_all
  then have "?d * 10 ^ 9 < 2 ^ 63" using assms(4) by linarith
  ultimately have "sleep_error ?d = None" by (rule sleep_in_range)
  then show ?thesis using assms(3) by (simp add: backoff_for_in_range)
qed

lemma run_loop_give_up:
  assumes "fn (calls w) = Some t" "\<not> (classify_fault t = RETRIABLE \<and> int attempt < max_retries p)"
  shows "run_loop fn p attempt w =
         (Raised (Failure t), log_line (GivingUp t) (w\<lparr>calls := calls w + 1\<rparr>))"
  using assms by (subst run_loop.simps) auto

lemma run_loop_overflow_step:
  assumes "fn (calls w) = Some t" "classify_fault t = RETRIABLE" "int attempt < max_retries p"
    "1024 \<le> attempt"
  shows "run_loop fn p attempt w = (Raised OverflowError, w\<lparr>calls := calls w + 1\<rparr>)"
  using assms
  by (subst run_loop.simps) (simp add: backoff_for_def pow2_as_float_def)

lemma run_loop_exhausts:
  assumes "always_fails_retriable fn" "0 \<le> base_backoff p" "0 \<le> max_backoff p"
    "max_retries p \<le> 1024" "max_backoff p * 10 ^ 9 < 2 ^ 63"
  shows "n = nat (max_retries p) - attempt \<Longrightarrow> int attempt \<le> max_retries p \<Longrightarrow>
         (\<exists>t. fn (calls w + n) = Some t \<and> fst (run_loop fn p attempt w) = Raised (Failure t)) \<and>
         calls (snd (run_loop fn p attempt w)) = calls w + n + 1 \<and>
         length (sleeps (snd (run_loop fn p attempt w))) = length (sleeps w) + n"
proof (induction n arbitrary: attempt w)
  case 0
  obtain t where t: "fn (calls w) = Some t" "classify_fault t = RETRIABLE"
    using assms(1) unfolding always_fails_retriable_def by blast
  have "\<not> int attempt < max_retries p" using 0 by linarith
  then show ?case using t by (simp add: run_loop_give_up log_line_def)
next
  case (Suc n)
  obtain t where t: "fn (calls w) = Some t" "classify_fault t = RETRIABLE"
    using assms(1) unfolding always_fails_retriable_def by blast
  have lt: "int attempt < max_retries p" "attempt < 1024" using Suc.prems assms(4) by linarith+
  have n: "n = nat (max_retries p) - (attempt + 1)" "int (attempt + 1) \<le> max_retries p"
    using Suc.prems by linarith+
  obtain d where d: "backoff_for p attempt = Inr d" "sleep_error d = None"
    using retry_delay [OF assms(2,3) lt(2) assms(5)] by blast
  have step: "run_loop fn p attempt w =
         run_loop fn p (attempt + 1)
           (w\<lparr>calls := calls w + 1,
              logged := logged w @ [Retrying t d (attempt + 1)],
              sleeps := sleeps w @ [d]\<rparr>)"
    using t lt(1) d by (rule run_loop_retry_step)
  show ?case
    unfolding step
    using Suc.IH [OF n, where w = "w\<lparr>calls := calls w + 1,
              logged := logged w @ [Retrying t d (attempt + 1)],
              sleeps := sleeps w @ [d]\<rparr>"] by simp
qed

lemma run_loop_overflows:
  assumes "always_fails_retriable fn" "0 \<le> base_backoff p" "0 \<le> max_backoff p"
    "1024 < max_retries p" "max_backoff p * 10 ^ 9 < 2 ^ 63"
  shows "n = 1024 - attempt \<Longrightarrow> attempt \<le> 1024 \<Longrightarrow>
         fst (run_loop fn p attempt w) = Raised OverflowError \<and>
         calls (snd (run_loop fn p attempt w)) = calls w + n + 1"
proof (induction n arbitrary: attempt w)
  case 0
  obtain t where t: "fn (calls w) = Some t" "classify_fault t = RETRIABLE"
    using assms(1) unfolding always_fails_retriable_def by blast
  have "int attempt < max_retries p" "1024 \<le> attempt" using 0 assms(4) by linarith+
  then show ?case using t by (simp add: run_loop_overflow_step)
next
  case (Suc n)
  obtain t where t: "fn (calls w) = Some t" "classify_fault t = RETRIABLE"
    using assms(1) unfolding always_fails_retriable_def by blast
  have lt: "int attempt < max_retries p" "attempt < 1024" using Suc.prems assms(4) by linarith+
  have n: "n = 1024 - (attempt + 1)" "attempt + 1 \<le> 1024"
    using Suc.prems by linarith+
  obtain d where d: "backoff_for p attempt = Inr d" "sleep_error d = None"
    using retry_delay [OF assms(2,3) lt(2) assms(5)] by blast
  have step: "run_loop fn p attempt w =
         run_loop fn p (attempt + 1)
           (w\<lparr>calls := calls w + 1,
              logged := logged w @ [Retrying t d (attempt + 1)],
              sleeps := sleeps w @ [d]\<rparr>)"
    using t lt(1) d by (rule run_loop_retry_step)
  show ?case
    unfolding step
    using Suc.IH [OF n, where w = "w\<lparr>calls := calls w + 1,
              logged := logged w @ [Retrying t d (attempt + 1)],
              sleeps := sleeps w @ [d]\<rparr>"] by simp
qed

lemma timeout_retriable: "classify_fault ''timeout'' = RETRIABLE"
  by code_simp

lemma always_timeout_retriable: "always_fails_retriable always_timeout"
  by (simp add: always_fails_retriable_def always_timeout_def timeout_retriable)

text \<open>
  A work function that fails with a transient fault at every invocation is invoked
  \<open>r + 1\<close> times, with \<open>r\<close> sleeps in between, and its last failure is propagated,
  when the policy allows \<open>r \<le> 1024\<close> retries and its delays are within the range of
  \<open>time.sleep\<close>.
\<close>

lemma run_with_retries_exhausts:
  assumes "always_fails_retriable fn" "0 \<le> base_backoff p" "0 \<le> max_backoff p"
    "0 \<le> max_retries p" "max_retries p \<le> 1024" "max_backoff p * 10 ^ 9 < 2 ^ 63"
  shows "(\<exists>t. fn (calls w + nat (max_retries p)) = Some t \<and>
            fst (run_with_retries fn p w) = Raised (Failure t)) \<and>
         calls (snd (run_with_retries fn p w)) = calls w + nat (max_retries p) + 1 \<and>
         length (sleeps (snd (run_with_retries fn p w))) = length (sleeps w) + nat (max_retries p)"
  unfolding run_with_retries_def
  using run_loop_exhausts [OF assms(1,2,3,5,6), of "nat (max_retries p)" 0 w] assms(4) by simp

text \<open>
  A work function whose first failure is not transient is invoked once, no sleep is
  performed, and the failure is propagated, whatever the policy.
\<close>

lemma run_with_retries_non_retriable:
  assumes "fn (calls w) = Some t" "classify_fault t = NON_RETRIABLE"
  shows "fst (run_with_retries fn p w) = Raised (Failure t) \<and>
         calls (snd (run_with_retries fn p w)) = calls w + 1 \<and>
         sleeps (snd (run_with_retries fn p w)) = sleeps w"
  unfolding run_with_retries_def
  using assms by (simp add: run_loop_give_up log_line_def)

text \<open>
  Claim C4. With \<open>maxRetries = r\<close> a permanently failing transient fault is invoked
  \<open>r + 1\<close> times and the original failure is propagated. With \<open>r = 1025\<close> and the
  default delays the code invokes the work function 1025 times, not 1026, and raises
  \<open>OverflowError\<close> from the delay computation of attempt 1024 instead of the work
  function's failure.
\<close>

theorem run_with_retries_overflow:
  "fst (run_with_retries always_timeout
          \<lparr>max_retries = 1025, base_backoff = 10, max_backoff = 300\<rparr> idle) = Raised OverflowError \<and>
   calls (snd (run_with_retries always_timeout
          \<lparr>max_retries = 1025, base_backoff = 10, max_backoff = 300\<rparr> idle)) = 1025"
  unfolding run_with_retries_def
  using run_loop_overflows [OF always_timeout_retriable,
      of "\<lparr>max_retries = 1025, base_backoff = 10, max_backoff = 300\<rparr>" 1024 0 idle]
  by (simp add: idle_def)

section \<open>The termination latch\<close>

lemma run_loop_latch:
  "run_loop fn p attempt (w\<lparr>terminate := b\<rparr>) =
   (fst (run_loop fn p attempt w), (snd (run_loop fn p attempt w))\<lparr>terminate := b\<rparr>)"
proof (induction fn p attempt w rule: run_loop.induct)
  case (1 fn p attempt w)
  show ?case
  proof (cases "fn (calls w)")
    case None
    then show ?thesis by (simp add: run_loop.simps [of fn p attempt])
  next
    case (Some t)
    show ?thesis
    proof (cases "classify_fault t = RETRIABLE \<and> int attempt < max_retries p")
      case False
      then show ?thesis using Some
        by (simp add: run_loop_give_up log_line_def)
    next
      case True
      show ?thesis
      proof (cases "backoff_for p attempt")
        case (Inl e)
        then show ?thesis using Some True
          by (simp add: run_loop.simps [of fn p attempt])
      next
        case (Inr d)
        show ?thesis
        proof (cases "sleep_error d")
          case (Some err)
          then show ?thesis using \<open>fn (calls w) = Some t\<close> True Inr
            by (simp add: run_loop.simps [of fn p attempt] sleep_def log_line_def)
        next
          case None
          let ?w' = "w\<lparr>calls := calls w + 1,
              logged := logged w @ [Retrying t d (attempt + 1)], sleeps := sleeps w @ [d]\<rparr>"
          let ?v = "w\<lparr>terminate := b\<rparr>"
          let ?v' = "?v\<lparr>calls := calls ?v + 1,
              logged := logged ?v @ [Retrying t d (attempt + 1)], sleeps := sleeps ?v @ [d]\<rparr>"
          have sl: "sleep d (log_line (Retrying t d (attempt + 1)) (w\<lparr>calls := calls w + 1\<rparr>)) = Inr ?w'"
            using None by (simp add: sleep_def log_line_def)
          have ih: "run_loop fn p (attempt + 1) (?w'\<lparr>terminate := b\<rparr>) =
                (fst (run_loop fn p (attempt + 1) ?w'), (snd (run_loop fn p (attempt + 1) ?w'))\<lparr>terminate := b\<rparr>)"
            using "1.IH" [OF \<open>fn (calls w) = Some t\<close> True Inr sl] .
          have l: "run_loop fn p attempt w = run_loop fn p (attempt + 1) ?w'"
            using \<open>fn (calls w) = Some t\<close> conjunct1 [OF True] conjunct2 [OF True] Inr None
            by (rule run_loop_retry_step)
          have "fn (calls ?v) = Some t" using \<open>fn (calls w) = Some t\<close> by simp
          then have r: "run_loop fn p attempt ?v = run_loop fn p (attempt + 1) ?v'"
            using conjunct1 [OF True] conjunct2 [OF True] Inr None by (rule run_loop_retry_step)
          have v: "?v' = ?w'\<lparr>terminate := b\<rparr>" by simp
          show ?thesis unfolding l r v ih ..
        qed
      qed
    qed
  qed
qed


text \<open>
  Claim C3, as stated: with the latch set, the retry loop aborts at once with a
  "terminated" outcome instead of sleeping the backoff and propagating the failure.
  On the code, a run that starts with the latch set, a work function that always
  times out and one permitted retry sleeps the full 10 seconds and propagates the
  original failure.
\<close>

theorem run_with_retries_latch_counterexample:
  "should_terminate (handle_signal idle) \<and>
   run_with_retries always_timeout
     \<lparr>max_retries = 1, base_backoff = 10, max_backoff = 300\<rparr> (handle_signal idle) =
   (Raised (Failure ''timeout''),
    \<lparr>calls = 2, sleeps = [10],
     logged = [Retrying ''timeout'' 10 1, GivingUp ''timeout''], terminate = True\<rparr>)"
  by (simp add: run_with_retries_def run_loop.simps always_timeout_def timeout_retriable
      backoff_for_def pow2_as_float_def sleep_def sleep_error_def log_line_def handle_signal_def
      should_terminate_def idle_def)

text \<open>
  Claim C3, amended. \<open>run_with_retries\<close> never reads the latch: a run that starts with
  the latch set invokes the work function as often, sleeps the same delays, logs the
  same messages and gives the same outcome as the run that starts in the same state
  with the latch as it was; the latch is left set.
\<close>

theorem run_with_retries_ignores_latch:
  "run_with_retries fn p (handle_signal w) =
   (fst (run_with_retries fn p w), handle_signal (snd (run_with_retries fn p w)))"
  unfolding run_with_retries_def handle_signal_def by (rule run_loop_latch)

theorem run_with_retries_ignores_latch_witness:
  "fst (run_with_retries always_timeout
     \<lparr>max_retries = 1, base_backoff = 10, max_backoff = 300\<rparr> (handle_signal idle)) =
   Raised (Failure ''timeout'') \<and>
   sleeps (snd (run_with_retries always_timeout
     \<lparr>max_retries = 1, base_backoff = 10, max_backoff = 300\<rparr> (handle_signal idle))) = [10]"
  using run_with_retries_ignores_latch [of always_timeout
      "\<lparr>max_retries = 1, base_backoff = 10, max_backoff = 300\<rparr>" idle]
  by (simp add: run_with_retries_def run_loop.simps always_timeout_def timeout_retriable
      backoff_for_def pow2_as_float_def sleep_def sleep_error_def log_line_def
      handle_signal_def idle_def)
section \<open>Properties of the checkpoint manifest manager\<close>

lemma handler_init_fresh: "handler_init leader [] = Inr (disk fresh)"
  by code_simp

subsection \<open>The manifest invariant\<close>

text \<open>Recording a checkpoint keeps the invariant: a successful record becomes the one
  \<open>latest\<close> names, a failed one leaves \<open>latest\<close> as it was.\<close>

lemma record_manifest_latest_ok:
  assumes "ok info"
  shows "latest_names_ok_record (record_manifest m info)"
proof -
  have "last (last20 (checkpoints m @ [info])) = info"
    by (simp add: last20_def)
  moreover have "last20 (checkpoints m @ [info]) \<noteq> []"
    by (simp add: last20_def)
  ultimately have "info \<in> set (last20 (checkpoints m @ [info]))"
    using last_in_set by metis
  then show ?thesis
    using assms by (auto simp: latest_names_ok_record_def record_manifest_def list_ex_iff)
qed

lemma record_manifest_failed_keeps_latest:
  "\<not> ok info \<Longrightarrow> latest (record_manifest m info) = latest m"
  by (simp add: record_manifest_def)

text \<open>
  Claim C1. After any sequence of save, recordExternal and loadLatest, \<open>latest\<close> names
  a record whose \<open>ok\<close> flag is true. On the code: a fresh leader registers step 7 with
  \<open>record_external\<close> at the checkpoint directory of step 7, then \<open>load_latest_checkpoint\<close>
  finds no state file there, marks the record bad and returns nothing; the manifest it
  leaves has \<open>latest = 7\<close> and its only record of step 7 has \<open>ok = False\<close>.
\<close>

theorem load_latest_leaves_latest_on_bad_record:
  "record_external leader 7 (checkpoint_dir leader 7) None fresh =
     Inr \<lparr>disk = external_disk, barriers = 0, ticks = 2\<rparr> \<and>
   load_latest_checkpoint leader external_disk = Inr (None, marked_disk) \<and>
   load_manifest leader marked_disk = Inr marked_manifest \<and>
   latest marked_manifest = Some 7 \<and>
   map step (checkpoints marked_manifest) = [7] \<and>
   map ok (checkpoints marked_manifest) = [False] \<and>
   \<not> latest_names_ok_record marked_manifest"
  by code_simp

subsection \<open>A crash before the rename\<close>

text \<open>The save of the same step after the crash removes the stale temporary directory
  and completes.\<close>

lemma save_after_crash:
  "save leader 7 [4] None None \<lparr>disk = crashed_disk, barriers = 0, ticks = 1\<rparr> =
     Inr (''/ckpt/step_00000007'',
       \<lparr>disk =
          [([''ckpt''], Dir),
           ([''ckpt'', ''step_00000007''], Dir),
           ([''ckpt'', ''step_00000007'', ''state.pt''], File (StateFile [4])),
           ([''ckpt'', ''step_00000007'', ''meta.json''],
            File (MetaJson \<lparr>meta_step = 7, meta_loss = None, meta_timestamp = 101, meta_rank = 0\<rparr>)),
           ([''ckpt'', ''manifest.json''],
            File (ManifestJson
              \<lparr>latest = Some 7,
               checkpoints = [\<lparr>step = 7, path = [''ckpt'', ''step_00000007''], loss = None,
                               timestamp = 102, ok = True\<rparr>]\<rparr>))],
        barriers = 1, ticks = 3\<rparr>)"
  by code_simp

text \<open>
  Claim C2. A temporary directory left by a crash between the write and the rename does
  not change what \<open>latest_checkpoint\<close> returns. On the code: on a fresh root
  \<open>latest_checkpoint\<close> returns nothing; the first save, of step 7, crashes before the
  rename; \<open>latest_checkpoint\<close> then returns the temporary directory
  \<open>step_00000007.tmp\<close> as the checkpoint of step 7, because the scan matches its pattern
  (\<open>step_\<close>, then digits) at the start of the name only.
\<close>

theorem latest_checkpoint_returns_tmp_dir:
  "latest_checkpoint leader (disk fresh) = Inr None \<and>
   save_write_tmp leader 7 [1, 2, 3] None fresh =
     Inr \<lparr>disk = crashed_disk, barriers = 0, ticks = 1\<rparr> \<and>
   path_exists crashed_disk [''ckpt'', ''step_00000007.tmp''] \<and>
   \<not> path_exists crashed_disk [''ckpt'', ''step_00000007''] \<and>
   latest_checkpoint leader crashed_disk =
     Inr (Some \<lparr>step = 7, path = [''ckpt'', ''step_00000007.tmp''], loss = None,
                 timestamp = 0, ok = True\<rparr>)"
  by code_simp

subsection \<open>The validity check\<close>

lemma file_has_parent:
  assumes "wf_fs d" "isfile d (p @ [name])"
  shows "isdir d p \<and> name \<in> set (entries_of d p)"
proof -
  from assms(2) obtain c where "map_of d (p @ [name]) = Some (File c)"
    by (auto simp: isfile_def node_at_def split: option.splits node.splits)
  then have m: "(p @ [name], File c) \<in> set d"
    by (rule map_of_SomeD)
  with assms(1) have "node_at d (butlast (p @ [name])) = Some Dir"
    by (auto simp: wf_fs_def list_all_iff)
  then have "isdir d p" by (simp add: isdir_def)
  moreover have "p @ [name] \<in> set (map fst d)"
    using m by force
  then have "name \<in> set (entries_of d p)"
    unfolding entries_of_def by force
  ultimately show ?thesis ..
qed

text \<open>
  On a well-formed filesystem the third test of the check (the primary state artifact,
  or a non-empty listing) never decides: where the metadata file exists, the listing of
  the directory contains it and so is not empty. The check passes exactly when the
  directory exists and contains a metadata file.
\<close>

lemma is_valid_checkpoint_meta_suffices:
  assumes "wf_fs d"
  shows "is_valid_checkpoint d p = Inr (path_exists d p \<and> isfile d (p @ [META_FILE]))"
proof (cases "isfile d (p @ [META_FILE])")
  case False
  then show ?thesis by (simp add: is_valid_checkpoint_def)
next
  case True
  from file_has_parent [OF assms True]
  have dir: "isdir d p" and ne: "entries_of d p \<noteq> []" by auto
  then have "path_exists d p" "listdir d p = Inr (entries_of d p)"
    by (simp_all add: isdir_def path_exists_def listdir_def)
  then show ?thesis using True ne
    by (simp add: is_valid_checkpoint_def and_then_def)
qed

text \<open>
  Claim C5. The validity check passes if and only if the directory exists, contains a
  metadata file, and contains the primary state artifact or at least one other file; a
  directory that contains a metadata file and nothing else does not pass. On the code
  the directory \<open>/ckpt/step_00000003\<close>, whose only entry is the metadata file and which
  holds no state artifact, passes the check.
\<close>

theorem is_valid_checkpoint_meta_only_counterexample:
  "entries_of meta_only_disk [''ckpt'', ''step_00000003''] = [META_FILE] \<and>
   is_valid_checkpoint meta_only_disk [''ckpt'', ''step_00000003''] = Inr True"
  by code_simp

subsection \<open>Saving from a process that is not the leader\<close>

text \<open>
  Claim C8. A save by a process that is not the leader (the flag passed as false, or not
  passed and \<open>is_main_process()\<close> false) leaves the disk as it is, calls the barrier once
  and returns the empty string.
\<close>

theorem save_non_leader:
  assumes "(case is_main of Some b \<Rightarrow> \<not> b | None \<Rightarrow> \<not> main_process e)"
  shows "save e s state l is_main w = Inr ('''', barrier w) \<and>
         disk (barrier w) = disk w \<and> barriers (barrier w) = barriers w + 1"
  using assms by (cases is_main) (simp_all add: save_def barrier_def)

theorem save_non_leader_witness:
  "save leader 7 [1, 2, 3] None (Some False) fresh =
     Inr ('''', \<lparr>disk = [([''ckpt''], Dir)], barriers = 1, ticks = 0\<rparr>)"
  using save_non_leader [where is_main = "Some False" and e = leader and s = 7
      and state = "[1, 2, 3]" and l = None and w = fresh]
  by (simp add: barrier_def fresh_def)

subsection \<open>Names of checkpoint directories\<close>

text \<open>The names of checkpoint directories: the format is read back by \<open>int\<close>, so it
  is injective on non-negative steps, and it consists of digits only, so no checkpoint
  name is the temporary name of another step.\<close>

lemma digit_char_val: "d < 10 \<Longrightarrow> (of_char (digit_char d) :: nat) - 48 = d"
  by (simp add: digit_char_def)

lemma digit_char_is_digit: "d < 10 \<Longrightarrow> is_digit (digit_char d)"
  by (simp add: digit_char_def is_digit_def)

lemma int_of_digits_snoc:
  "int_of_digits (xs @ [c]) = 10 * int_of_digits xs + ((of_char c :: nat) - 48)"
  by (simp add: int_of_digits_def)

lemma int_of_digits_digits: "int_of_digits (digits n) = n"
proof (induction n rule: digits.induct)
  case (1 n)
  show ?case
  proof (cases "n < 10")
    case True
    then show ?thesis
      by (subst digits.simps) (simp add: int_of_digits_def digit_char_val)
  next
    case False
    then have "int_of_digits (digits n) =
          10 * int_of_digits (digits (n div 10)) + ((of_char (digit_char (n mod 10)) :: nat) - 48)"
      by (subst digits.simps) (simp add: int_of_digits_snoc)
    also have "\<dots> = 10 * (n div 10) + n mod 10"
      using "1.IH" [OF False] by (simp add: digit_char_val)
    finally show ?thesis by simp
  qed
qed

lemma digits_all_digits: "list_all is_digit (digits n)"
proof (induction n rule: digits.induct)
  case (1 n)
  show ?case
  proof (cases "n < 10")
    case True
    then show ?thesis by (subst digits.simps) (simp add: digit_char_is_digit)
  next
    case False
    then show ?thesis
      using "1.IH" [OF False] by (subst digits.simps) (simp add: digit_char_is_digit)
  qed
qed

lemma int_of_digits_zeros:
  "int_of_digits (replicate k CHR ''0'' @ xs) = int_of_digits xs"
proof -
  have "foldl (\<lambda>acc c. 10 * acc + ((of_char c :: nat) - 48)) 0 (replicate k CHR ''0'') = 0"
    by (induction k) simp_all
  then show ?thesis by (simp add: int_of_digits_def)
qed

lemma int_of_digits_format: "0 \<le> s \<Longrightarrow> int_of_digits (format_08d s) = nat s"
  by (simp add: format_08d_def int_of_digits_zeros int_of_digits_digits)

lemma format_08d_inj:
  assumes "0 \<le> s" "0 \<le> s'" "format_08d s = format_08d s'"
  shows "s = s'"
proof -
  have "nat s = nat s'"
    using int_of_digits_format [OF assms(1)] int_of_digits_format [OF assms(2)] assms(3) by simp
  then show ?thesis using assms(1,2) by simp
qed

lemma format_08d_all_digits: "0 \<le> s \<Longrightarrow> list_all is_digit (format_08d s)"
  using digits_all_digits [of "nat s"] by (auto simp: format_08d_def is_digit_def list_all_iff)

lemma format_08d_not_tmp:
  assumes "0 \<le> s'"
  shows "format_08d s' \<noteq> format_08d s @ ''.tmp''"
proof
  assume eq: "format_08d s' = format_08d s @ ''.tmp''"
  have "CHR ''.'' \<in> set (format_08d s')" unfolding eq by simp
  then have "is_digit CHR ''.''"
    using format_08d_all_digits [OF assms] by (simp add: list_all_iff)
  then show False by (simp add: is_digit_def)
qed

lemma checkpoint_dir_inj:
  "0 \<le> s \<Longrightarrow> 0 \<le> s' \<Longrightarrow> checkpoint_dir e s = checkpoint_dir e s' \<Longrightarrow> s = s'"
  by (simp add: checkpoint_dir_def format_08d_inj)

lemma match_step_checkpoint_name:
  assumes "0 \<le> s"
  shows "match_step (''step_'' @ format_08d s) = Some s"
proof -
  have "\<forall>x \<in> set (format_08d s). is_digit x"
    using format_08d_all_digits [OF assms] by (simp add: list_all_iff)
  then have a: "takeWhile is_digit (format_08d s) = format_08d s"
    by (simp add: takeWhile_eq_all_conv)
  have b: "format_08d s \<noteq> []" by (simp add: format_08d_def) (subst digits.simps, simp)
  show ?thesis unfolding match_step_def using b assms by (simp add: a int_of_digits_format)
qed

text \<open>The format of the step in a directory name: for a non-negative step it consists
  of decimal digits that read back as the step, at least eight of them, and exactly
  eight for a step below \<open>10^8\<close>.\<close>

lemma digits_length: "n < 10 ^ k \<Longrightarrow> 0 < k \<Longrightarrow> length (digits n) \<le> k"
proof (induction n arbitrary: k rule: digits.induct)
  case (1 n)
  show ?case
  proof (cases "n < 10")
    case True
    then show ?thesis using "1.prems" by (subst digits.simps) simp
  next
    case False
    obtain j where k: "k = Suc j" using "1.prems"(2) by (cases k) auto
    have "j \<noteq> 0" using False "1.prems"(1) k by (cases j) auto
    moreover have "n div 10 < 10 ^ j" using "1.prems"(1) k by (simp add: less_mult_imp_div_less)
    ultimately have "length (digits (n div 10)) \<le> j"
      using "1.IH" [OF False, of j] by simp
    then show ?thesis using False k by (subst digits.simps) simp
  qed
qed

lemma format_08d_length:
  "0 \<le> l \<Longrightarrow> 8 \<le> length (format_08d l)"
  "0 \<le> l \<Longrightarrow> l < 10 ^ 8 \<Longrightarrow> length (format_08d l) = 8"
proof -
  assume l: "0 \<le> l"
  then show "8 \<le> length (format_08d l)" by (simp add: format_08d_def)
  assume "l < 10 ^ 8"
  then have "nat l < 10 ^ 8" using l by (simp add: nat_less_iff)
  then have "length (digits (nat l)) \<le> 8" by (rule digits_length) simp
  then show "length (format_08d l) = 8" using l by (simp add: format_08d_def)
qed

subsection \<open>The manifest fast path\<close>

lemma pointer_disk_reached:
  "and_then (save leader 9 [9] None None fresh) (\<lambda>(p, w1).
   and_then (record_external leader 7 [''ext'', ''ds7''] (Some (1 / 2)) w1) (\<lambda>w2.
   and_then (record_external leader 7 (checkpoint_dir leader 7) None w2) (\<lambda>w3.
   and_then (load_latest_checkpoint leader (disk w3)) (\<lambda>(r, d). Inr (r, d))))) =
   Inr (None, pointer_disk)"
  by code_simp

text \<open>
  Claim C10. When the manifest's \<open>latest\<close> pointer is set and the checkpoint directory
  derived from it passes the validity check, \<open>latest_checkpoint\<close> answers through the
  pointer, and the record it returns is built from the step alone: its path is the root
  joined with \<open>step_\<close> and the step as zero-padded decimal digits (eight of them for a
  step below \<open>10^8\<close>), its \<open>ok\<close> flag is true, its loss is absent and its timestamp is
  the default 0, whatever the manifest records of that step store. A record of the
  latest step that is stored at another path, as \<open>record_external\<close> can register it,
  is therefore not the path returned.
\<close>

theorem latest_checkpoint_via_pointer:
  assumes "load_manifest e d = Inr m" "latest m = Some l"
    "is_valid_checkpoint d (checkpoint_dir e l) = Inr True"
  shows "manifest_pointer e d m =
           Inr (Some \<lparr>step = l, path = root_dir e @ [''step_'' @ format_08d l],
                       loss = None, timestamp = 0, ok = True\<rparr>) \<and>
         latest_checkpoint e d =
           Inr (Some \<lparr>step = l, path = root_dir e @ [''step_'' @ format_08d l],
                       loss = None, timestamp = 0, ok = True\<rparr>) \<and>
         (0 \<le> l \<longrightarrow>
            list_all is_digit (format_08d l) \<and> int (int_of_digits (format_08d l)) = l \<and>
            8 \<le> length (format_08d l) \<and> (l < 10 ^ 8 \<longrightarrow> length (format_08d l) = 8)) \<and>
         (\<forall>c \<in> set (checkpoints m). \<forall>r.
            latest_checkpoint e d = Inr (Some r) \<longrightarrow> step c = l \<longrightarrow>
            path c \<noteq> root_dir e @ [''step_'' @ format_08d l] \<longrightarrow> path r \<noteq> path c)"
proof -
  let ?r = "\<lparr>step = l, path = root_dir e @ [''step_'' @ format_08d l],
             loss = None, timestamp = 0, ok = True\<rparr>"
  have p: "manifest_pointer e d m = Inr (Some ?r)"
    using assms(2,3) by (simp add: manifest_pointer_def and_then_def found_def checkpoint_dir_def)
  have a: "latest_checkpoint e d = Inr (Some ?r)"
    using assms(1) p by (simp add: latest_checkpoint_def and_then_def)
  have f: "0 \<le> l \<longrightarrow>
            list_all is_digit (format_08d l) \<and> int (int_of_digits (format_08d l)) = l \<and>
            8 \<le> length (format_08d l) \<and> (l < 10 ^ 8 \<longrightarrow> length (format_08d l) = 8)"
    using format_08d_all_digits [of l] int_of_digits_format [of l] format_08d_length [of l]
    by simp
  have c: "\<forall>c \<in> set (checkpoints m). \<forall>r.
            latest_checkpoint e d = Inr (Some r) \<longrightarrow> step c = l \<longrightarrow>
            path c \<noteq> root_dir e @ [''step_'' @ format_08d l] \<longrightarrow> path r \<noteq> path c"
    unfolding a by auto
  show ?thesis using p a f c by blast
qed

theorem latest_checkpoint_via_pointer_witness:
  "load_manifest leader pointer_disk = Inr pointer_manifest \<and>
   latest_checkpoint leader pointer_disk =
     Inr (Some \<lparr>step = 7, path = [''ckpt'', ''step_00000007''], loss = None,
                 timestamp = 0, ok = True\<rparr>) \<and>
   scan_fallback leader pointer_disk =
     Inr (Some \<lparr>step = 9, path = [''ckpt'', ''step_00000009''], loss = None,
                 timestamp = 0, ok = True\<rparr>) \<and>
   format_08d 7 = ''00000007'' \<and> format_08d 123456789 = ''123456789''"
proof -
  have a: "load_manifest leader pointer_disk = Inr pointer_manifest"
    by code_simp
  have l: "latest pointer_manifest = Some 7"
    by (simp add: pointer_manifest_def)
  have v: "is_valid_checkpoint pointer_disk (checkpoint_dir leader 7) = Inr True"
    by code_simp
  have n: "root_dir leader @ [''step_'' @ format_08d 7] = [''ckpt'', ''step_00000007'']"
    by code_simp
  have s: "scan_fallback leader pointer_disk =
     Inr (Some \<lparr>step = 9, path = [''ckpt'', ''step_00000009''], loss = None,
                 timestamp = 0, ok = True\<rparr>)"
    by code_simp
  have f7: "format_08d 7 = ''00000007''"
    by code_simp
  have f9: "format_08d 123456789 = ''123456789''"
    by (simp add: format_08d_def digits.simps digit_char_def) code_simp
  have f: "format_08d 7 = ''00000007'' \<and> format_08d 123456789 = ''123456789''"
    using f7 f9 by (rule conjI)
  have "latest_checkpoint leader pointer_disk =
     Inr (Some \<lparr>step = 7, path = [''ckpt'', ''step_00000007''], loss = None,
                 timestamp = 0, ok = True\<rparr>)"
    using latest_checkpoint_via_pointer [OF a l v] unfolding n by blast
  then show ?thesis using a s f by blast
qed

subsection \<open>Sequences of saves and the retention of the manifest\<close>

text \<open>What the filesystem operations do where nothing is in their way.\<close>

lemma node_at_clear:
  assumes "keys_clear d p" "prefix p q" "q \<noteq> []"
  shows "node_at d q = None"
proof -
  have "q \<notin> fst ` set d" using assms(1,2) unfolding keys_clear_def by blast
  then have "map_of d q = None" by (simp add: map_of_eq_None_iff)
  then show ?thesis using assms(3) by (simp add: node_at_def)
qed

lemma node_at_append:
  "q \<noteq> [] \<Longrightarrow> node_at (d @ xs) q =
     (case node_at d q of Some n \<Rightarrow> Some n | None \<Rightarrow> map_of xs q)"
  by (simp add: node_at_def map_add_def split: option.splits)

lemma move_append: "move (d @ xs) src dst = move d src dst @ move xs src dst"
  by (simp add: move_def)

lemma move_untouched:
  assumes "keys_clear d src" "keys_clear d dst"
  shows "move d src dst = d"
proof -
  have "\<forall>x \<in> set d. fst x \<noteq> dst \<and> \<not> prefix src (fst x)"
    using assms unfolding keys_clear_def by auto
  then have a: "filter (\<lambda>(q, n). q \<noteq> dst) d = d"
    by (intro filter_True) auto
  have "map (\<lambda>(q, n). (rename_key src dst q, n)) d = map (\<lambda>x. x) d"
    using \<open>\<forall>x \<in> set d. fst x \<noteq> dst \<and> \<not> prefix src (fst x)\<close>
    by (intro map_cong refl) (auto simp: rename_key_def)
  then show ?thesis by (simp add: move_def a)
qed

lemma makedirs_child:
  assumes "node_at d p = Some Dir" "node_at d (p @ [name]) = None"
  shows "makedirs d (p @ [name]) = Inr (d @ [(p @ [name], Dir)])"
  using assms
  by (subst makedirs.simps)
     (simp add: path_exists_def mkdir_def parent_check_def and_then_def)

lemma write_file_new:
  assumes "node_at d p = Some Dir" "node_at d (p @ [name]) = None"
  shows "write_file d (p @ [name]) c = Inr (d @ [(p @ [name], File c)])"
  using assms by (simp add: write_file_def parent_check_def and_then_def)


lemma move_clear_src:
  assumes "keys_clear d src"
  shows "move d src dst = filter (\<lambda>(q, n). q \<noteq> dst) d"
proof -
  have "\<forall>x \<in> set d. \<not> prefix src (fst x)"
    using assms unfolding keys_clear_def by auto
  then have "map (\<lambda>(q, n). (rename_key src dst q, n)) (filter (\<lambda>(q, n). q \<noteq> dst) d)
           = map (\<lambda>x. x) (filter (\<lambda>(q, n). q \<noteq> dst) d)"
    by (intro map_cong refl) (auto simp: rename_key_def)
  then show ?thesis by (simp add: move_def)
qed

lemma filter_clear:
  assumes "keys_clear d p"
  shows "filter (\<lambda>(q, n). q \<noteq> p) d = d"
  using assms unfolding keys_clear_def by (intro filter_True) auto

lemma atomic_write_file:
  assumes "node_at d p = Some Dir" "keys_clear d (p @ [name @ ''.tmp''])"
    "node_at d (p @ [name]) = None \<or> (\<exists>old. node_at d (p @ [name]) = Some (File old))"
  shows "atomic_write d (p @ [name]) c =
         Inr (filter (\<lambda>(q, n). q \<noteq> p @ [name]) d @ [(p @ [name], File c)])"
proof -
  let ?src = "p @ [name @ ''.tmp'']" and ?dst = "p @ [name]"
  have sfx: "add_suffix ?dst ''.tmp'' = ?src" by (simp add: add_suffix_def)
  have none: "node_at d ?src = None"
    using node_at_clear [OF assms(2)] by simp
  have w: "write_file d ?src c = Inr (d @ [(?src, File c)])"
    using assms(1) none by (rule write_file_new)
  let ?d1 = "d @ [(?src, File c)]"
  have src: "node_at ?d1 ?src = Some (File c)"
    using none by (simp add: node_at_append)
  have dst: "node_at ?d1 ?dst = node_at d ?dst"
    by (simp add: node_at_append split: option.splits)
  have par: "node_at ?d1 (butlast ?dst) = Some Dir"
    using assms(1) by (cases "p = []") (simp_all add: node_at_append node_at_def)
  have mv: "move ?d1 ?src ?dst = filter (\<lambda>(q, n). q \<noteq> ?dst) d @ [(?dst, File c)]"
    by (simp add: move_append move_clear_src [OF assms(2)]) (simp add: move_def rename_key_def)
  have "replace ?d1 ?src ?dst = Inr (move ?d1 ?src ?dst)"
    using assms(3) src dst par
    by (auto simp: replace_def parent_check_def and_then_def)
  then show ?thesis
    unfolding atomic_write_def sfx w mv by (simp add: and_then_def)
qed

text \<open>The first part of a leader save on a disk that holds no temporary directory for
  the step: the temporary directory is appended with its two files.\<close>

lemma save_write_tmp_fresh:
  assumes "node_at (disk w) (root_dir e) = Some Dir"
    "keys_clear (disk w) (add_suffix (checkpoint_dir e s) ''.tmp'')"
  shows "save_write_tmp e s state l w =
     Inr (w\<lparr>disk := disk w @ checkpoint_entries e (add_suffix (checkpoint_dir e s) ''.tmp'')
                                 s state l (time_at e (ticks w)),
            ticks := ticks w + 1\<rparr>)"
proof -
  define tmp where "tmp = add_suffix (checkpoint_dir e s) ''.tmp''"
  define n where "n = ''step_'' @ format_08d s @ ''.tmp''"
  define d where "d = disk w"
  have tmp: "tmp = root_dir e @ [n]"
    by (simp add: tmp_def n_def add_suffix_def checkpoint_dir_def)
  have clear: "keys_clear d tmp" using assms(2) by (simp add: tmp_def d_def)
  have none: "node_at d tmp = None"
    using node_at_clear [OF clear] by (simp add: tmp)
  have mk: "safe_makedirs d tmp = Inr (d @ [(tmp, Dir)])"
    unfolding safe_makedirs_def tmp using assms(1) none [unfolded tmp] d_def
    by (intro makedirs_child) simp_all
  define d1 where "d1 = d @ [(tmp, Dir)]"
  have tne: "tmp \<noteq> []" by (simp add: tmp)
  have d1dir: "node_at d1 tmp = Some Dir"
    using none tne by (simp add: d1_def node_at_append)
  have "node_at d (tmp @ [STATE_FILE]) = None"
    using node_at_clear [OF clear] by simp
  then have d1st: "node_at d1 (tmp @ [STATE_FILE]) = None"
    by (simp add: d1_def node_at_append)
  have wr: "write_file d1 (tmp @ [STATE_FILE]) (StateFile state) =
            Inr (d1 @ [(tmp @ [STATE_FILE], File (StateFile state))])"
    using d1dir d1st by (rule write_file_new)
  define d2 where "d2 = d1 @ [(tmp @ [STATE_FILE], File (StateFile state))]"
  have d2dir: "node_at d2 tmp = Some Dir"
    using d1dir tne by (simp add: d2_def node_at_append)
  have ne: "META_FILE \<noteq> STATE_FILE" "META_FILE @ ''.tmp'' \<noteq> STATE_FILE"
    by (simp_all add: META_FILE_def STATE_FILE_def)
  have keys2: "fst ` set d2 = fst ` set d \<union> {tmp, tmp @ [STATE_FILE]}"
    by (auto simp: d2_def d1_def)
  have c2: "keys_clear d2 (tmp @ [META_FILE @ ''.tmp''])"
    using clear ne unfolding keys_clear_def keys2 by (auto simp: prefix_def)
  have c3: "keys_clear d2 (tmp @ [META_FILE])"
    using clear ne unfolding keys_clear_def keys2 by (auto simp: prefix_def)
  have d2meta: "node_at d2 (tmp @ [META_FILE]) = None"
    using node_at_clear [OF c3] by simp
  have aw: "atomic_write d2 (tmp @ [META_FILE]) c = Inr (d2 @ [(tmp @ [META_FILE], File c)])" for c
    using atomic_write_file [OF d2dir c2, of c] d2meta filter_clear [OF c3] by simp
  have pe: "\<not> path_exists d tmp" using none by (simp add: path_exists_def)
  show ?thesis
    unfolding save_write_tmp_def Let_def tmp_def [symmetric] d_def [symmetric]
    using pe by (simp add: mk d1_def [symmetric] wr d2_def [symmetric] aw and_then_def
        time_time_def checkpoint_entries_def)
       (simp add: d2_def d1_def d_def)
qed

lemma step_name_not_manifest:
  "''step_'' @ x \<noteq> MANIFEST" "''step_'' @ x \<noteq> MANIFEST @ ''.tmp''"
  "''step_'' @ x @ ''.tmp'' \<noteq> MANIFEST" "''step_'' @ x @ ''.tmp'' \<noteq> MANIFEST @ ''.tmp''"
  by (simp_all add: MANIFEST_def)

lemma node_at_root_append:
  "node_at d p = Some Dir \<Longrightarrow> node_at (d @ xs) p = Some Dir"
  by (cases "p = []") (simp_all add: node_at_append, simp add: node_at_def)

lemma load_manifest_cases:
  assumes "load_manifest e d = Inr m"
  shows "node_at d (manifest_path e) = None \<or>
         (\<exists>old. node_at d (manifest_path e) = Some (File old))"
  using assms by (auto simp: load_manifest_def split: option.splits node.splits content.splits)

text \<open>The second part: the temporary directory becomes the checkpoint directory and the
  rewritten manifest is the last entry of the disk.\<close>

lemma save_publish_fresh:
  assumes "disk w = d @ checkpoint_entries e (add_suffix (checkpoint_dir e s) ''.tmp'') s state l t"
    "node_at d (root_dir e) = Some Dir"
    "keys_clear d (add_suffix (checkpoint_dir e s) ''.tmp'')"
    "keys_clear d (checkpoint_dir e s)"
    "keys_clear d (root_dir e @ [MANIFEST @ ''.tmp''])"
    "load_manifest e d = Inr m"
  shows "save_publish e s l w =
     Inr (checkpoint_dir e s,
          w\<lparr>disk := filter (\<lambda>(q, n). q \<noteq> manifest_path e) d
                     @ checkpoint_entries e (checkpoint_dir e s) s state l t
                     @ [(manifest_path e,
                         File (ManifestJson (record_manifest m
                           \<lparr>step = s, path = checkpoint_dir e s, loss = l,
                            timestamp = time_at e (ticks w), ok = True\<rparr>)))],
             barriers := barriers w + 1, ticks := ticks w + 1\<rparr>)"
proof -
  define n where "n = ''step_'' @ format_08d s"
  define root where "root = root_dir e"
  define ckpt where "ckpt = checkpoint_dir e s"
  define tmp where "tmp = add_suffix (checkpoint_dir e s) ''.tmp''"
  define info where "info = \<lparr>step = s, path = ckpt, loss = l,
                            timestamp = time_at e (ticks w), ok = True\<rparr>"
  have ckpt: "ckpt = root @ [n]" by (simp add: ckpt_def n_def root_def checkpoint_dir_def)
  have tmp: "tmp = root @ [n @ ''.tmp'']"
    by (simp add: tmp_def n_def root_def add_suffix_def checkpoint_dir_def)
  have mp: "manifest_path e = root @ [MANIFEST]" by (simp add: manifest_path_def root_def)
  have nn: "n \<noteq> MANIFEST" "n \<noteq> MANIFEST @ ''.tmp''"
    using step_name_not_manifest by (simp_all add: n_def)
  have cl_tmp: "keys_clear d tmp" and cl_ckpt: "keys_clear d ckpt"
    and cl_mtmp: "keys_clear d (root @ [MANIFEST @ ''.tmp''])"
    and rootdir: "node_at d root = Some Dir"
    using assms by (simp_all add: tmp_def ckpt_def root_def)
  define d3 where "d3 = d @ checkpoint_entries e tmp s state l t"
  have dw: "disk w = d3" using assms(1) by (simp add: d3_def tmp_def)
  have "node_at d tmp = None" using node_at_clear [OF cl_tmp] by (simp add: tmp)
  then have src: "node_at d3 tmp = Some Dir"
    by (simp add: d3_def node_at_append checkpoint_entries_def tmp)
  have "node_at d ckpt = None" using node_at_clear [OF cl_ckpt] by (simp add: ckpt)
  then have dst: "node_at d3 ckpt = None"
    by (simp add: d3_def node_at_append checkpoint_entries_def tmp ckpt)
  have par: "node_at d3 (butlast ckpt) = Some Dir"
    using node_at_root_append [OF rootdir] by (simp add: ckpt d3_def)
  have mv: "move d3 tmp ckpt = d @ checkpoint_entries e ckpt s state l t"
    unfolding d3_def move_append move_untouched [OF cl_tmp cl_ckpt]
    by (simp add: move_def checkpoint_entries_def rename_key_def tmp ckpt)
  have rp: "replace d3 tmp ckpt = Inr (d @ checkpoint_entries e ckpt s state l t)"
    using src dst par mv
    by (simp add: replace_def parent_check_def and_then_def tmp ckpt)
  define d4 where "d4 = d @ checkpoint_entries e ckpt s state l t"
  have mnode: "node_at d4 (manifest_path e) = node_at d (manifest_path e)"
    using nn by (simp add: d4_def node_at_append checkpoint_entries_def mp ckpt split: option.splits)
  then have lm: "load_manifest e d4 = Inr m"
    using assms(6) by (simp add: load_manifest_def)
  have root4: "node_at d4 root = Some Dir"
    using node_at_root_append [OF rootdir] by (simp add: d4_def)
  have keys4: "fst ` set d4 = fst ` set d \<union> {ckpt, ckpt @ [STATE_FILE], ckpt @ [META_FILE]}"
    by (auto simp: d4_def checkpoint_entries_def)
  have cl4: "keys_clear d4 (root @ [MANIFEST @ ''.tmp''])"
    using cl_mtmp nn unfolding keys_clear_def keys4 by (auto simp: ckpt prefix_def)
  have m4: "node_at d4 (root @ [MANIFEST]) = None \<or>
            (\<exists>old. node_at d4 (root @ [MANIFEST]) = Some (File old))"
    using load_manifest_cases [OF assms(6)] mnode by (simp add: mp)
  have flt: "filter (\<lambda>(q, n). q \<noteq> root @ [MANIFEST]) d4 =
             filter (\<lambda>(q, n). q \<noteq> root @ [MANIFEST]) d @ checkpoint_entries e ckpt s state l t"
    using nn by (simp add: d4_def checkpoint_entries_def ckpt)
  have wm: "write_manifest e d4 m' =
        Inr (filter (\<lambda>(q, n). q \<noteq> root @ [MANIFEST]) d @ checkpoint_entries e ckpt s state l t
             @ [(root @ [MANIFEST], File (ManifestJson m'))])" for m'
    unfolding write_manifest_def mp atomic_write_file [OF root4 cl4 m4] flt by simp
  have rc: "record_checkpoint e d4 info =
        Inr (filter (\<lambda>(q, n). q \<noteq> root @ [MANIFEST]) d @ checkpoint_entries e ckpt s state l t
             @ [(root @ [MANIFEST], File (ManifestJson (record_manifest m info)))])"
    by (simp add: record_checkpoint_def lm wm and_then_def)
  have tc: "add_suffix ckpt ''.tmp'' = tmp" by (simp add: tmp_def ckpt_def)
  show ?thesis
    unfolding save_publish_def Let_def ckpt_def [symmetric] dw tc
    by (simp add: rp d4_def [symmetric] time_time_def info_def [symmetric] rc and_then_def
        barrier_def mp)
qed

text \<open>One leader save on a managed disk, and what it leaves.\<close>

lemma prefix_sibling: "prefix (r @ [a]) q \<Longrightarrow> prefix (r @ [b]) q \<Longrightarrow> a = b"
  by (auto simp: prefix_def append_eq_append_conv2 Cons_eq_append_conv append_eq_Cons_conv)

lemma managed_clear:
  assumes "managed e S d" "name \<noteq> MANIFEST"
    "\<forall>s \<in> S. name \<noteq> ''step_'' @ format_08d s"
  shows "keys_clear d (root_dir e @ [name])"
  unfolding keys_clear_def
proof (intro ballI notI)
  fix q assume q: "q \<in> fst ` set d" and p: "prefix (root_dir e @ [name]) q"
  have "prefix (root_dir e) q" using p by (auto simp: prefix_def)
  with assms(1) q consider "q = root_dir e" | "q = manifest_path e"
    | s where "s \<in> S" "prefix (checkpoint_dir e s) q"
    unfolding managed_def by blast
  then show False
  proof cases
    case 1
    then show ?thesis using p by (simp add: prefix_def)
  next
    case 2
    then show ?thesis using p assms(2) by (simp add: manifest_path_def)
  next
    case 3
    then have "name = ''step_'' @ format_08d s"
      using p prefix_sibling [of "root_dir e" name q] by (simp add: checkpoint_dir_def)
    then show ?thesis using assms(3) 3(1) by blast
  qed
qed

lemma save_leader_fresh:
  assumes "managed e S (disk w)" "load_manifest e (disk w) = Inr m" "0 \<le> s"
    "\<forall>s' \<in> S. 0 \<le> s' \<and> s' \<noteq> s"
  shows "save e s state l (Some True) w =
     Inr (path_str (checkpoint_dir e s),
          w\<lparr>disk := saved_disk e s state l m w,
             barriers := barriers w + 1, ticks := ticks w + 2\<rparr>)"
proof -
  have root: "node_at (disk w) (root_dir e) = Some Dir"
    using assms(1) by (simp add: managed_def)
  have c_tmp: "keys_clear (disk w) (add_suffix (checkpoint_dir e s) ''.tmp'')"
  proof -
    have "add_suffix (checkpoint_dir e s) ''.tmp'' = root_dir e @ [''step_'' @ format_08d s @ ''.tmp'']"
      by (simp add: add_suffix_def checkpoint_dir_def)
    moreover have "\<forall>s' \<in> S. ''step_'' @ format_08d s @ ''.tmp'' \<noteq> ''step_'' @ format_08d s'"
      using assms(4) format_08d_not_tmp [of _ s] by (metis same_append_eq)
    then have "keys_clear (disk w) (root_dir e @ [''step_'' @ format_08d s @ ''.tmp''])"
      using step_name_not_manifest(3) by (intro managed_clear [OF assms(1)])
    ultimately show ?thesis by simp
  qed
  have c_ckpt: "keys_clear (disk w) (checkpoint_dir e s)"
    unfolding checkpoint_dir_def
    using assms(3,4) format_08d_inj step_name_not_manifest(1)
    by (intro managed_clear [OF assms(1)]) auto
  have c_mtmp: "keys_clear (disk w) (root_dir e @ [MANIFEST @ ''.tmp''])"
    using step_name_not_manifest(2) [symmetric]
    by (intro managed_clear [OF assms(1)]) (auto simp: MANIFEST_def)
  let ?t = "time_at e (ticks w)"
  let ?w1 = "w\<lparr>disk := disk w @ checkpoint_entries e (add_suffix (checkpoint_dir e s) ''.tmp'')
                                 s state l ?t, ticks := ticks w + 1\<rparr>"
  have a: "save_write_tmp e s state l w = Inr ?w1"
    using root c_tmp by (rule save_write_tmp_fresh)
  have b: "save_publish e s l ?w1 =
     Inr (checkpoint_dir e s,
          ?w1\<lparr>disk := filter (\<lambda>(q, n). q \<noteq> manifest_path e) (disk w)
                     @ checkpoint_entries e (checkpoint_dir e s) s state l ?t
                     @ [(manifest_path e,
                         File (ManifestJson (record_manifest m
                           \<lparr>step = s, path = checkpoint_dir e s, loss = l,
                            timestamp = time_at e (ticks ?w1), ok = True\<rparr>)))],
             barriers := barriers ?w1 + 1, ticks := ticks ?w1 + 1\<rparr>)"
    by (rule save_publish_fresh [OF _ root c_tmp c_ckpt c_mtmp assms(2)]) simp
  show ?thesis
    using b by (simp add: save_def a and_then_def saved_disk_def)
qed

lemma node_at_filter_other:
  "q \<noteq> k \<Longrightarrow> node_at (filter (\<lambda>(q, n). q \<noteq> k) d) q = node_at d q"
  by (induction d) (auto simp: node_at_def)

lemma saved_disk_keeps:
  assumes "node_at (disk w) q = Some n" "q \<noteq> manifest_path e"
  shows "node_at (saved_disk e s state l m w) q = Some n"
proof (cases "q = []")
  case True
  then show ?thesis using assms by (simp add: node_at_def)
next
  case False
  then show ?thesis
    using assms unfolding saved_disk_def
    by (simp add: node_at_append node_at_filter_other)
qed

lemma saved_disk_manifest:
  "load_manifest e (saved_disk e s state l m w) =
     Inr (record_manifest m \<lparr>step = s, path = checkpoint_dir e s, loss = l,
            timestamp = time_at e (ticks w + 1), ok = True\<rparr>)"
proof -
  have "map_of (filter (\<lambda>(q, n). q \<noteq> manifest_path e) (disk w)) (manifest_path e) = None"
    by (simp add: map_of_eq_None_iff image_iff)
  then show ?thesis
    unfolding saved_disk_def load_manifest_def
    using step_name_not_manifest(1) [symmetric]
    by (simp add: node_at_def manifest_path_def checkpoint_entries_def checkpoint_dir_def
        map_add_def split: option.splits)
qed

lemma saved_disk_state:
  assumes "keys_clear (disk w) (checkpoint_dir e s)"
  shows "load (saved_disk e s state l m w) (checkpoint_dir e s) = Inr state"
proof -
  have "\<not> prefix (checkpoint_dir e s) q" if "q \<in> fst ` set (filter (\<lambda>(q, n). q \<noteq> manifest_path e) (disk w))" for q
    using that assms unfolding keys_clear_def by auto
  then have "checkpoint_dir e s @ [STATE_FILE] \<notin> fst ` set (filter (\<lambda>(q, n). q \<noteq> manifest_path e) (disk w))"
    by (metis prefixI)
  then have "map_of (filter (\<lambda>(q, n). q \<noteq> manifest_path e) (disk w)) (checkpoint_dir e s @ [STATE_FILE]) = None"
    by (simp add: map_of_eq_None_iff)
  then show ?thesis
    unfolding saved_disk_def load_def
    by (simp add: node_at_def checkpoint_entries_def map_add_def split: option.splits)
qed

lemma saved_disk_managed:
  assumes "managed e S (disk w)"
  shows "managed e (insert s S) (saved_disk e s state l m w)"
proof -
  have root: "node_at (disk w) (root_dir e) = Some Dir"
    using assms by (simp add: managed_def)
  have "root_dir e \<noteq> manifest_path e" by (simp add: manifest_path_def)
  then have r: "node_at (saved_disk e s state l m w) (root_dir e) = Some Dir"
    using saved_disk_keeps [OF root] by simp
  have keys: "fst ` set (saved_disk e s state l m w) \<subseteq>
        fst ` set (disk w) \<union> {checkpoint_dir e s, checkpoint_dir e s @ [STATE_FILE],
          checkpoint_dir e s @ [META_FILE], manifest_path e}"
    by (auto simp: saved_disk_def checkpoint_entries_def)
  show ?thesis
    unfolding managed_def
  proof (intro conjI ballI impI)
    show "node_at (saved_disk e s state l m w) (root_dir e) = Some Dir" by (rule r)
  next
    fix q assume q: "q \<in> fst ` set (saved_disk e s state l m w)" and p: "prefix (root_dir e) q"
    from q keys have "q \<in> fst ` set (disk w) \<or> q = checkpoint_dir e s \<or>
        q = checkpoint_dir e s @ [STATE_FILE] \<or> q = checkpoint_dir e s @ [META_FILE] \<or>
        q = manifest_path e"
      by blast
    then consider "q \<in> fst ` set (disk w)"
      | "prefix (checkpoint_dir e s) q" | "q = manifest_path e"
      by (auto simp: prefix_def)
    then show "q = root_dir e \<or> q = manifest_path e \<or> (\<exists>s \<in> insert s S. prefix (checkpoint_dir e s) q)"
    proof cases
      case 1
      then show ?thesis using assms p unfolding managed_def by blast
    qed auto
  qed
qed

text \<open>Truncation to the last 20 records, and the induction over the sequence.\<close>

lemma last20_absorb: "last20 (last20 xs @ ys) = last20 (xs @ ys)"
proof (cases "length xs \<le> 20")
  case True
  then show ?thesis by (simp add: last20_def)
next
  case False
  then have "length xs - 20 + length ys = length ys + length xs - 20"
    "length xs + length ys - 20 = length ys + length xs - 20" by simp_all
  then show ?thesis using False by (simp add: last20_def)
qed

lemma last20_map: "map f (last20 xs) = last20 (map f xs)"
  by (simp add: last20_def drop_map)

lemma last20_length: "length (last20 xs) \<le> 20"
  by (simp add: last20_def)

lemma last20_subset: "set (last20 xs) \<subseteq> set xs"
  by (simp add: last20_def set_drop_subset)

lemma load_kept:
  assumes "load (disk w) p = Inr b"
  shows "load (saved_disk e s state l m w) p = Inr b"
proof -
  from assms have n: "node_at (disk w) (p @ [STATE_FILE]) = Some (File (StateFile b))"
    by (auto simp: load_def split: option.splits node.splits content.splits)
  have "p @ [STATE_FILE] \<noteq> manifest_path e"
    by (simp add: manifest_path_def STATE_FILE_def MANIFEST_def)
  from saved_disk_keeps [OF n this] show ?thesis by (simp add: load_def)
qed

lemma save_all_managed:
  assumes "sorted_wrt (<) (map fst reqs)"
    "\<forall>s \<in> fst ` set reqs. 0 \<le> s \<and> (\<forall>s' \<in> fst ` set done. s' < s)"
  shows "managed e (fst ` set done) (disk w) \<Longrightarrow> load_manifest e (disk w) = Inr m \<Longrightarrow>
    \<forall>s' \<in> fst ` set done. 0 \<le> s' \<Longrightarrow>
    \<forall>(s, b, l) \<in> set done. load (disk w) (checkpoint_dir e s) = Inr b \<Longrightarrow>
    list_all (own_record e) (checkpoints m) \<Longrightarrow> length (checkpoints m) \<le> 20 \<Longrightarrow>
    \<exists>w' m'. save_all e reqs w = Inr w' \<and> load_manifest e (disk w') = Inr m' \<and>
       map step (checkpoints m') = last20 (map step (checkpoints m) @ map fst reqs) \<and>
       list_all (own_record e) (checkpoints m') \<and>
       (\<forall>(s, b, l) \<in> set done \<union> set reqs. load (disk w') (checkpoint_dir e s) = Inr b) \<and>
       barriers w' = barriers w + length reqs"
  using assms
proof (induction reqs arbitrary: w m "done")
  case Nil
  then show ?case by (simp add: last20_def)
next
  case (Cons r rest)
  obtain s b l where r: "r = (s, b, l)" by (cases r)
  let ?S = "fst ` set done"
  have s0: "0 \<le> s" and sS: "\<forall>s' \<in> ?S. 0 \<le> s' \<and> s' \<noteq> s"
    using Cons.prems(3,8) r by auto
  define info where "info = \<lparr>step = s, path = checkpoint_dir e s, loss = l,
            timestamp = time_at e (ticks w + 1), ok = True\<rparr>"
  define w1 where "w1 = w\<lparr>disk := saved_disk e s b l m w,
             barriers := barriers w + 1, ticks := ticks w + 2\<rparr>"
  have sv: "save e s b l (Some True) w = Inr (path_str (checkpoint_dir e s), w1)"
    unfolding w1_def using Cons.prems(1,2) s0 sS by (rule save_leader_fresh)
  have d1: "disk w1 = saved_disk e s b l m w" by (simp add: w1_def)
  have man1: "managed e (fst ` set (done @ [r])) (disk w1)"
    using saved_disk_managed [OF Cons.prems(1), of s b l m] by (simp add: d1 r)
  have lm1: "load_manifest e (disk w1) = Inr (record_manifest m info)"
    unfolding d1 info_def by (rule saved_disk_manifest)
  have nn1: "\<forall>s' \<in> fst ` set (done @ [r]). 0 \<le> s'"
    using Cons.prems(3) s0 r by auto
  have clear: "keys_clear (disk w) (checkpoint_dir e s)"
    unfolding checkpoint_dir_def
    using s0 sS format_08d_inj step_name_not_manifest(1)
    by (intro managed_clear [OF Cons.prems(1)]) auto
  have ld1: "\<forall>(s, b, l) \<in> set (done @ [r]). load (disk w1) (checkpoint_dir e s) = Inr b"
    using Cons.prems(4) load_kept [of w _ _ e s b l m] saved_disk_state [OF clear, of b l m]
    by (auto simp: d1 r)
  have own1: "list_all (own_record e) (checkpoints (record_manifest m info))"
  proof -
    have "own_record e info" by (simp add: own_record_def info_def)
    then have "list_all (own_record e) (checkpoints m @ [info])"
      using Cons.prems(5) by simp
    then show ?thesis
      using last20_subset [of "checkpoints m @ [info]"]
      unfolding record_manifest_def list_all_iff by auto
  qed
  have len1: "length (checkpoints (record_manifest m info)) \<le> 20"
    by (simp add: record_manifest_def last20_length)
  have sorted1: "sorted_wrt (<) (map fst rest)"
    using Cons.prems(7) by simp
  have later: "\<forall>s2 \<in> fst ` set rest. 0 \<le> s2 \<and> (\<forall>s' \<in> fst ` set (done @ [r]). s' < s2)"
    using Cons.prems(7,8) r by auto
  from Cons.IH [OF man1 lm1 nn1 ld1 own1 len1 sorted1 later]
  obtain w' m' where res: "save_all e rest w1 = Inr w'" "load_manifest e (disk w') = Inr m'"
    "map step (checkpoints m') =
       last20 (map step (checkpoints (record_manifest m info)) @ map fst rest)"
    "list_all (own_record e) (checkpoints m')"
    "\<forall>(s, b, l) \<in> set (done @ [r]) \<union> set rest. load (disk w') (checkpoint_dir e s) = Inr b"
    "barriers w' = barriers w1 + length rest"
    by blast
  have steps: "map step (checkpoints (record_manifest m info)) =
               last20 (map step (checkpoints m) @ [s])"
    by (simp add: record_manifest_def last20_map info_def)
  have a: "save_all e (r # rest) w = Inr w'"
    by (simp add: r sv and_then_def res(1))
  have b: "map step (checkpoints m') = last20 (map step (checkpoints m) @ map fst (r # rest))"
    unfolding res(3) steps last20_absorb by (simp add: r)
  have c: "\<forall>(s, b, l) \<in> set done \<union> set (r # rest). load (disk w') (checkpoint_dir e s) = Inr b"
    using res(5) by auto
  have d: "barriers w' = barriers w + length (r # rest)"
    using res(6) by (simp add: w1_def)
  show ?case using a res(2) b res(4) c d by blast
qed

lemma empty_root_managed:
  assumes "empty_root e d"
  shows "managed e {} d \<and> load_manifest e d = Inr \<lparr>latest = None, checkpoints = []\<rparr>"
proof -
  have m: "managed e {} d"
    using assms by (auto simp: empty_root_def managed_def isdir_def)
  have "q \<noteq> manifest_path e" if "q \<in> fst ` set d" for q
  proof
    assume q: "q = manifest_path e"
    then have "prefix (root_dir e) q" by (simp add: manifest_path_def)
    with assms that have "q = root_dir e" unfolding empty_root_def by blast
    with q show False by (simp add: manifest_path_def)
  qed
  then have "manifest_path e \<notin> fst ` set d" by blast
  then have "node_at d (manifest_path e) = None"
    by (simp add: node_at_def manifest_path_def map_of_eq_None_iff)
  then show ?thesis using m by (simp add: load_manifest_def)
qed

text \<open>
  Claim C9. Starting from an existing, empty checkpoint root, every sequence of leader
  saves with strictly increasing, non-negative step numbers succeeds, and afterwards the
  manifest holds at most 20 records: those of the last 20 steps saved, in order, each
  valid and at the checkpoint directory of its step. No artifact is deleted: the state of
  every step saved, also of those dropped from the manifest, still loads from its
  checkpoint directory.
\<close>

theorem save_all_history:
  assumes "empty_root e (disk w)" "sorted_wrt (<) (map fst reqs)"
    "\<forall>s \<in> fst ` set reqs. 0 \<le> s"
  shows "\<exists>w' m. save_all e reqs w = Inr w' \<and> load_manifest e (disk w') = Inr m \<and>
       length (checkpoints m) \<le> 20 \<and>
       map step (checkpoints m) = last20 (map fst reqs) \<and>
       (\<forall>c \<in> set (checkpoints m). ok c \<and> path c = checkpoint_dir e (step c)) \<and>
       (\<forall>(s, state, l) \<in> set reqs. load (disk w') (checkpoint_dir e s) = Inr state)"
proof -
  let ?m0 = "\<lparr>latest = None, checkpoints = []\<rparr>"
  have m: "managed e (fst ` set []) (disk w)" and lm: "load_manifest e (disk w) = Inr ?m0"
    using empty_root_managed [OF assms(1)] by simp_all
  have later: "\<forall>s \<in> fst ` set reqs. 0 \<le> s \<and> (\<forall>s' \<in> fst ` set ([] :: (int \<times> blob \<times> real option) list). s' < s)"
    using assms(3) by simp
  from save_all_managed [OF assms(2) later m lm]
  obtain w' m' where res: "save_all e reqs w = Inr w'" "load_manifest e (disk w') = Inr m'"
    "map step (checkpoints m') = last20 (map step (checkpoints ?m0) @ map fst reqs)"
    "list_all (own_record e) (checkpoints m')"
    "\<forall>(s, b, l) \<in> set [] \<union> set reqs. load (disk w') (checkpoint_dir e s) = Inr b"
    by auto
  have "length (map step (checkpoints m')) \<le> 20"
    unfolding res(3) by (rule last20_length)
  then have len: "length (checkpoints m') \<le> 20" by simp
  have own: "\<forall>c \<in> set (checkpoints m'). ok c \<and> path c = checkpoint_dir e (step c)"
    using res(4) by (simp add: list_all_iff own_record_def)
  show ?thesis
    using res(1,2,3,5) len own by (intro exI [of _ w'] exI [of _ m']) simp
qed

lemma fresh_empty_root: "empty_root leader (disk fresh)"
  by (simp add: empty_root_def leader_def fresh_def isdir_def node_at_def)

lemma twenty_five_sorted:
  "sorted_wrt (<) (map fst twenty_five_saves) \<and> (\<forall>s \<in> fst ` set twenty_five_saves. 0 \<le> s)"
  by code_simp

lemma twenty_five_last20: "last20 (map fst twenty_five_saves) = map int [6..<26]"
  by code_simp

theorem save_all_history_witness:
  "\<exists>w' m. save_all leader twenty_five_saves fresh = Inr w' \<and>
       load_manifest leader (disk w') = Inr m \<and>
       length (checkpoints m) \<le> 20 \<and>
       map step (checkpoints m) = map int [6..<26]"
  using save_all_history [OF fresh_empty_root conjunct1 [OF twenty_five_sorted]
      conjunct2 [OF twenty_five_sorted]]
  unfolding twenty_five_last20 by blast

end
